theory Spec2Isabelle
  imports Main "HOL-Library.Word"
begin

unbundle bit_operations_syntax

section \<open>Bytes and fixed-width integers\<close>

type_synonym byte = "8 word"
type_synonym quint16 = "16 word"
type_synonym quint32 = "32 word"

text \<open>
  A big-endian integer assembled from its bytes, most significant first
  (\<open>QDataStream::BigEndian\<close>).
\<close>

definition be_nat :: "byte list \<Rightarrow> nat" where
  "be_nat bs = foldl (\<lambda>acc b. acc * 256 + unat b) 0 bs"

section \<open>The RLE codec: \<open>uncompressRLE\<close>\<close>

text \<open>
  Inside \<open>uncompressRLE\<close> the \<open>QDataStream in\<close> reads from a \<open>QByteArray\<close>; it is
  modelled by the list of bytes not yet read. A read that finds too few bytes left
  consumes what is left and stores 0 in its target (\<open>QDataStream::operator>>\<close> zeroes
  the target and only overwrites it when the whole value was read); the stream itself
  never refuses a read. \<open>in.atEnd()\<close> is \<open>s = []\<close>.

  \<open>int width\<close>, \<open>int height\<close> are taken as naturals: the function is modelled on
  \<open>0 \<le> width\<close>, \<open>0 \<le> height\<close>, \<open>width * height \<le> INT_MAX\<close>, outside of which the
  C++ has no defined behaviour.
\<close>

definition read_char :: "byte list \<Rightarrow> byte \<times> byte list" where
  "read_char s = (case s of [] \<Rightarrow> (0, []) | b # rest \<Rightarrow> (b, rest))"

definition read_quint16 :: "byte list \<Rightarrow> quint16 \<times> byte list" where
  "read_quint16 s =
     (case s of a # b # rest \<Rightarrow> (word_of_nat (be_nat [a, b]), rest) | _ \<Rightarrow> (0, []))"

text \<open>The loop \<open>for (i = 0; i < height; i++)\<close> that fills \<open>lengthTable\<close>.\<close>

fun read_lengthTable :: "nat \<Rightarrow> byte list \<Rightarrow> (nat list \<times> byte list) option" where
  "read_lengthTable 0 s = Some ([], s)"
| "read_lengthTable (Suc n) s =
     (if s = [] then None
      else (let (v, s1) = read_quint16 s in
            case read_lengthTable n s1 of
              None \<Rightarrow> None
            | Some (vs, s2) \<Rightarrow> Some (unat v # vs, s2)))"

text \<open>
  \<open>for (j = 0; j < continuousLength; j++, scanLinePos++) scanLine[scanLinePos] = data;\<close>
\<close>

primrec write_continuous :: "nat \<Rightarrow> byte \<Rightarrow> nat \<Rightarrow> byte list \<Rightarrow> byte list" where
  "write_continuous 0 d p scanLine = scanLine"
| "write_continuous (Suc j) d p scanLine = write_continuous j d (Suc p) (scanLine[p := d])"

text \<open>
  \<open>for (j = 0; j < discontinuousLength; j++, scanLinePos++)
     { in >> data; i++; scanLine[scanLinePos] = data; }\<close>
\<close>

primrec write_discontinuous ::
  "nat \<Rightarrow> nat \<Rightarrow> byte list \<Rightarrow> byte list \<Rightarrow> byte list \<times> byte list" where
  "write_discontinuous 0 p scanLine s = (scanLine, s)"
| "write_discontinuous (Suc j) p scanLine s =
     (let (d, s1) = read_char s in write_discontinuous j (Suc p) (scanLine[p := d]) s1)"

text \<open>
  The loop \<open>for (int i = 0; i < lengthTable[y];)\<close> over one scanline: \<open>len\<close> is
  \<open>lengthTable[y]\<close>, \<open>i\<close> counts the bytes read. \<open>None\<close> is \<open>return QByteArray()\<close>.
  The result carries the scanline, the final \<open>scanLinePos\<close> and the stream.
\<close>

function decode_runs ::
  "nat \<Rightarrow> nat \<Rightarrow> nat \<Rightarrow> nat \<Rightarrow> byte list \<Rightarrow> byte list \<Rightarrow> (byte list \<times> nat \<times> byte list) option"
where
  "decode_runs width len i scanLinePos scanLine s =
     (if i < len then
        (let (code, s1) = read_char s in
         if sint code < 0 then
           (let continuousLength = nat (1 - sint code) in
            if continuousLength + scanLinePos > width then None
            else (let (d, s2) = read_char s1 in
                  decode_runs width len (i + 2) (scanLinePos + continuousLength)
                    (write_continuous continuousLength d scanLinePos scanLine) s2))
         else
           (let discontinuousLength = nat (sint code + 1) in
            if discontinuousLength + scanLinePos > width then None
            else (let (scanLine', s2) =
                        write_discontinuous discontinuousLength scanLinePos scanLine s1 in
                  decode_runs width len (i + 1 + discontinuousLength)
                    (scanLinePos + discontinuousLength) scanLine' s2)))
      else Some (scanLine, scanLinePos, s))"
  by pat_completeness auto
termination
  by (relation "measure (\<lambda>(width, len, i, scanLinePos, scanLine, s). len - i)") auto

declare decode_runs.simps [simp del]

text \<open>\<open>for (x = 0; x < width; x++) channel[y * width + x] = scanLine[x];\<close>\<close>

definition transfer_scanline :: "nat \<Rightarrow> nat \<Rightarrow> byte list \<Rightarrow> byte list \<Rightarrow> byte list" where
  "transfer_scanline width y scanLine channel =
     fold (\<lambda>x ch. ch[y * width + x := scanLine ! x]) [0..<width] channel"

text \<open>
  The loop \<open>for (y = 0; y < height; y++)\<close>, over the entries of the length table
  that are still to come. Beside the channel it returns the final \<open>scanLinePos\<close>
  of every scanline.
\<close>

fun decode_scanlines ::
  "nat \<Rightarrow> nat \<Rightarrow> nat list \<Rightarrow> byte list \<Rightarrow> byte list \<Rightarrow> (byte list \<times> nat list) option"
where
  "decode_scanlines width y [] s channel = Some (channel, [])"
| "decode_scanlines width y (len # lens) s channel =
     (case decode_runs width len 0 0 (replicate width 0) s of
        None \<Rightarrow> None
      | Some (scanLine, scanLinePos, s1) \<Rightarrow>
          (case decode_scanlines width (Suc y) lens s1
                  (transfer_scanline width y scanLine channel) of
             None \<Rightarrow> None
           | Some (ch, ps) \<Rightarrow> Some (ch, scanLinePos # ps)))"

definition uncompressRLE_run :: "nat \<Rightarrow> nat \<Rightarrow> byte list \<Rightarrow> (byte list \<times> nat list) option" where
  "uncompressRLE_run width height compressed =
     (case read_lengthTable height compressed of
        None \<Rightarrow> None
      | Some (lengthTable, s) \<Rightarrow>
          decode_scanlines width 0 lengthTable s (replicate (width * height) 0))"

text \<open>The function as the caller sees it: the empty array stands for failure.\<close>

definition uncompressRLE :: "nat \<Rightarrow> nat \<Rightarrow> byte list \<Rightarrow> byte list" where
  "uncompressRLE width height compressed =
     (case uncompressRLE_run width height compressed of
        None \<Rightarrow> []
      | Some (channel, ps) \<Rightarrow> channel)"

section \<open>A reference RLE encoder\<close>

text \<open>
  The repository holds no encoder. The round-trip property is stated against the
  PackBits format the decoder reads: a scanline is a list of runs, a literal run of
  1 to 128 bytes (control byte \<open>n - 1\<close>) or a repeat run of 2 to 128 copies of one byte
  (control byte \<open>1 - n\<close> as a signed byte); the stream is the table of the scanlines'
  byte lengths, 16 bits each, big-endian, followed by the scanlines. \<open>well_formed\<close> says
  that every run is in range, every scanline expands to \<open>width\<close> bytes and its byte
  length fits the table. \<open>encode_line\<close> is one such encoder: it emits a repeat run for
  every stretch of equal bytes (at most 128 at a time) and a one-byte literal otherwise.
\<close>

datatype run = Literal "byte list" | Repeat nat byte

fun run_ok :: "run \<Rightarrow> bool" where
  "run_ok (Literal bs) = (1 \<le> length bs \<and> length bs \<le> 128)"
| "run_ok (Repeat n b) = (2 \<le> n \<and> n \<le> 128)"

fun run_bytes :: "run \<Rightarrow> byte list" where
  "run_bytes (Literal bs) = word_of_nat (length bs - 1) # bs"
| "run_bytes (Repeat n b) = [word_of_int (1 - int n), b]"

fun run_expand :: "run \<Rightarrow> byte list" where
  "run_expand (Literal bs) = bs"
| "run_expand (Repeat n b) = replicate n b"

definition line_bytes :: "run list \<Rightarrow> byte list" where
  "line_bytes rs = concat (map run_bytes rs)"

definition line_expand :: "run list \<Rightarrow> byte list" where
  "line_expand rs = concat (map run_expand rs)"

definition table_bytes :: "nat list \<Rightarrow> byte list" where
  "table_bytes ns = concat (map (\<lambda>n. [word_of_nat (n div 256), word_of_nat (n mod 256)]) ns)"

definition rle_stream :: "run list list \<Rightarrow> byte list" where
  "rle_stream rows = table_bytes (map (\<lambda>row. length (line_bytes row)) rows) @ concat (map line_bytes rows)"

definition well_formed :: "nat \<Rightarrow> run list list \<Rightarrow> bool" where
  "well_formed width rows =
     list_all (\<lambda>row. list_all run_ok row \<and> length (line_expand row) = width \<and>
                     length (line_bytes row) < 65536) rows"

fun encode_line :: "byte list \<Rightarrow> run list" where
  "encode_line [] = []"
| "encode_line (b # bs) =
     (let k = min 127 (length (takeWhile (\<lambda>x. x = b) bs)) in
      if k = 0 then Literal [b] # encode_line bs
      else Repeat (Suc k) b # encode_line (drop k bs))"

definition split_rows :: "nat \<Rightarrow> nat \<Rightarrow> byte list \<Rightarrow> byte list list" where
  "split_rows width height plane = map (\<lambda>y. take width (drop (y * width) plane)) [0..<height]"

definition compress :: "nat \<Rightarrow> nat \<Rightarrow> byte list \<Rightarrow> byte list" where
  "compress width height plane = rle_stream (map encode_line (split_rows width height plane))"

section \<open>The byte cursor: \<open>QDataStream\<close> over the document\<close>

text \<open>
  The stream that \<open>main\<close> threads through every reader: the bytes of the device not yet
  read, the device position, whether \<open>ds.status()\<close> is still \<open>QDataStream::Ok\<close>, and
  whether the device reports an error (\<open>file.error() != QFileDevice::NoError\<close>). Running
  past the end is not a device error: a read or skip that finds too few bytes consumes
  what is left and turns the status to \<open>ReadPastEnd\<close>; no reader of the model sets
  \<open>dev_error\<close>, it is a property of the device the stream was opened on. All integers
  are big-endian. Lengths handed to \<open>skipRawData\<close> and \<open>readRawData\<close> are the
  \<open>qint64\<close> parameters of Qt 6.7, so an unsigned 32-bit length is passed unchanged.
\<close>

record qstream =
  remaining :: "byte list"
  position :: nat
  status_ok :: bool
  dev_error :: bool

definition atEnd :: "qstream \<Rightarrow> bool" where
  "atEnd ds = (remaining ds = [])"

definition advance :: "nat \<Rightarrow> qstream \<Rightarrow> qstream" where
  "advance n ds =
     (if n \<le> length (remaining ds)
      then ds\<lparr>remaining := drop n (remaining ds), position := position ds + n\<rparr>
      else ds\<lparr>remaining := [], position := position ds + length (remaining ds),
              status_ok := False\<rparr>)"

text \<open>
  \<open>operator>>\<close> for an \<open>n\<close>-byte integer: 0 unless all \<open>n\<close> bytes were there.
\<close>

definition read_be :: "nat \<Rightarrow> qstream \<Rightarrow> nat \<times> qstream" where
  "read_be n ds =
     (if n \<le> length (remaining ds) then be_nat (take n (remaining ds)) else 0, advance n ds)"

definition get_quint32 :: "qstream \<Rightarrow> quint32 \<times> qstream" where
  "get_quint32 ds = (let (v, ds') = read_be 4 ds in (word_of_nat v, ds'))"

definition get_quint16 :: "qstream \<Rightarrow> quint16 \<times> qstream" where
  "get_quint16 ds = (let (v, ds') = read_be 2 ds in (word_of_nat v, ds'))"

definition get_quint8 :: "qstream \<Rightarrow> byte \<times> qstream" where
  "get_quint8 ds = (let (v, ds') = read_be 1 ds in (word_of_nat v, ds'))"

definition skipRawData :: "nat \<Rightarrow> qstream \<Rightarrow> qstream" where
  "skipRawData n ds = advance n ds"

text \<open>
  \<open>QByteArray buf(n, '\0'); ds.readRawData(buf.data(), n);\<close> the buffer keeps its
  zeros where the device had no more bytes.
\<close>

definition readRawData :: "nat \<Rightarrow> qstream \<Rightarrow> byte list \<times> qstream" where
  "readRawData n ds =
     (take n (remaining ds) @ replicate (n - length (remaining ds)) 0, advance n ds)"

section \<open>Sections of the document\<close>

abbreviation PSDSignature8BPS :: quint32 where "PSDSignature8BPS \<equiv> 0x38425053"
abbreviation PSDSignature8BIM :: quint32 where "PSDSignature8BIM \<equiv> 0x3842494D"
abbreviation PSDSignature8B64 :: quint32 where "PSDSignature8B64 \<equiv> 0x38623634"

abbreviation PSDChannelInfosize :: quint32 where "PSDChannelInfosize \<equiv> 6"
abbreviation PSDLayerRecordSize :: quint32 where "PSDLayerRecordSize \<equiv> 34"
abbreviation PSDGlboalLayerMaskInfoDataOffset :: quint32 where
  "PSDGlboalLayerMaskInfoDataOffset \<equiv> 13"
abbreviation PSDAdditionalLayerInfoDataOffset :: quint32 where
  "PSDAdditionalLayerInfoDataOffset \<equiv> 8"
abbreviation PSDAdditionalLayerInfoSize :: quint32 where
  "PSDAdditionalLayerInfoSize \<equiv> 12"

text \<open>
  The structs. A field whose name another struct or a HOL constant already uses carries
  the initials of its struct. \<open>channelId\<close> is a \<open>qint16\<close>, read with \<open>sint\<close>.
\<close>

record PSDFileHeaderSection =
  fh_signature :: quint32
  fh_version :: quint16
  fh_channels :: quint16
  fh_height :: quint32
  fh_width :: quint32
  fh_depth :: quint16
  fh_colorMode :: quint16

record PSDChannelInfo =
  channelId :: "16 word"
  correspondingChannelDataLength :: quint32

record PSDLayerRecord =
  top' :: quint32
  left :: quint32
  bottom :: quint32
  right :: quint32
  channels :: quint16
  channelInfos :: "PSDChannelInfo list"
  signature :: quint32
  blendModeKey :: quint32
  opacity :: byte
  clipping :: byte
  flags :: byte
  filler :: byte
  extraDataFieldLength :: quint32

record PSDAdditionalLayerInfo =
  ali_signature :: quint32
  characterCode :: quint32
  ali_length :: quint32

definition read_PSDFileHeaderSection :: "qstream \<Rightarrow> PSDFileHeaderSection \<times> qstream" where
  "read_PSDFileHeaderSection ds =
     (let (sg, ds) = get_quint32 ds;
          (ver, ds) = get_quint16 ds;
          (reserved, ds) = readRawData 6 ds;
          (ch, ds) = get_quint16 ds;
          (h, ds) = get_quint32 ds;
          (w, ds) = get_quint32 ds;
          (dep, ds) = get_quint16 ds;
          (cm, ds) = get_quint16 ds
      in (\<lparr>fh_signature = sg, fh_version = ver, fh_channels = ch, fh_height = h,
           fh_width = w, fh_depth = dep, fh_colorMode = cm\<rparr>, ds))"

text \<open>
  \<open>PSDColorModeDataSection\<close> and \<open>PSDImageResouceSection\<close>: a length, and that many
  bytes skipped.
\<close>

definition read_skipped_section :: "qstream \<Rightarrow> quint32 \<times> qstream" where
  "read_skipped_section ds =
     (let (len, ds) = get_quint32 ds in (len, skipRawData (unat len) ds))"

definition read_PSDLayerInfo :: "qstream \<Rightarrow> (quint32 \<times> 16 word) \<times> qstream" where
  "read_PSDLayerInfo ds =
     (let (len, ds) = get_quint32 ds; (layerCount, ds) = get_quint16 ds
      in ((len, layerCount), ds))"

text \<open>
  \<open>PSDGlobalLayerMaskInfo\<close>: only its length is used afterwards. The skip length
  \<open>d.length - PSDGlboalLayerMaskInfoDataOffset\<close> is an unsigned 32-bit difference.
\<close>

definition read_PSDGlobalLayerMaskInfo :: "qstream \<Rightarrow> quint32 \<times> qstream" where
  "read_PSDGlobalLayerMaskInfo ds =
     (let (len, ds) = get_quint32 ds in
      if len \<noteq> 0 then
        (let (overlayColorSpace, ds) = get_quint16 ds;
             (c0, ds) = get_quint16 ds;
             (c1, ds) = get_quint16 ds;
             (c2, ds) = get_quint16 ds;
             (c3, ds) = get_quint16 ds;
             (opac, ds) = get_quint16 ds;
             (kind, ds) = get_quint8 ds
         in (len, skipRawData (unat (len - PSDGlboalLayerMaskInfoDataOffset)) ds))
      else (len, ds))"

text \<open>
  \<open>operator>>(QDataStream&, PSDAdditionalLayerInfo&)\<close>: \<open>d\<close> is the struct as the
  caller hands it over; fields that are not read keep what they held.
\<close>

definition read_PSDAdditionalLayerInfo ::
  "qstream \<Rightarrow> PSDAdditionalLayerInfo \<Rightarrow> PSDAdditionalLayerInfo \<times> qstream" where
  "read_PSDAdditionalLayerInfo ds d =
     (let (sg, ds) = get_quint32 ds; d = d\<lparr>ali_signature := sg\<rparr> in
      if sg \<noteq> PSDSignature8BIM \<and> sg \<noteq> PSDSignature8B64 then (d, ds)
      else (let (cc, ds) = get_quint32 ds; (len, ds) = get_quint32 ds
            in (d\<lparr>characterCode := cc, ali_length := len\<rparr>, ds)))"

text \<open>
  The loop \<open>for (i = 0; i < d.channels; i++)\<close> of the layer record reader, and the
  reader. The record \<open>d\<close> comes from the caller; the reader appends to
  \<open>d.channelInfos\<close> and writes the other fields it reads.
\<close>

primrec read_channelInfos ::
  "nat \<Rightarrow> qstream \<Rightarrow> PSDChannelInfo list \<Rightarrow> PSDChannelInfo list \<times> qstream" where
  "read_channelInfos 0 ds infos = (infos, ds)"
| "read_channelInfos (Suc n) ds infos =
     (let (cid, ds) = get_quint16 ds; (len, ds) = get_quint32 ds
      in read_channelInfos n ds
           (infos @ [\<lparr>channelId = cid, correspondingChannelDataLength = len\<rparr>]))"

definition read_PSDLayerRecord ::
  "qstream \<Rightarrow> PSDLayerRecord \<Rightarrow> PSDLayerRecord \<times> qstream" where
  "read_PSDLayerRecord ds d =
     (let (t, ds) = get_quint32 ds;
          (l, ds) = get_quint32 ds;
          (b, ds) = get_quint32 ds;
          (r, ds) = get_quint32 ds;
          (ch, ds) = get_quint16 ds;
          (infos, ds) = read_channelInfos (unat ch) ds (channelInfos d);
          (sg, ds) = get_quint32 ds;
          d = d\<lparr>top' := t, left := l, bottom := b, right := r, channels := ch,
                channelInfos := infos, signature := sg\<rparr>
      in if sg \<noteq> PSDSignature8BIM then (d, ds)
         else (let (bm, ds) = get_quint32 ds;
                   (op, ds) = get_quint8 ds;
                   (cl, ds) = get_quint8 ds;
                   (fl, ds) = get_quint8 ds;
                   (fi, ds) = get_quint8 ds;
                   (ex, ds) = get_quint32 ds
               in (d\<lparr>blendModeKey := bm, opacity := op, clipping := cl, flags := fl,
                      filler := fi, extraDataFieldLength := ex\<rparr>, ds)))"

section \<open>The additional-block scanner: \<open>scanAdditionalLayerInfo\<close>\<close>

text \<open>
  The function returns \<open>-1\<close> on each of four exits and \<open>0\<close> when the loop ends; the
  exits are told apart by the message they print. The model returns the exit, the
  stream, and the final value of \<open>remBytes\<close> (a \<open>qint64\<close>: it starts from an unsigned
  32-bit value and loses less than \<open>2^32\<close> per round, so it never wraps). The consumed
  length \<open>length + padding + PSDAdditionalLayerInfoSize\<close> is unsigned 32-bit arithmetic.
  The local \<open>additionalLayerInfo\<close> is not initialised in the source; no path reads a
  field of it that the reader did not write, and the model starts it from zeros.
\<close>

datatype scan_exit =
  ScanDone | RemainderTooSmall | EndOfStream | ScanIoError | InvalidBlockSignature

fun scan_code :: "scan_exit \<Rightarrow> int" where
  "scan_code ScanDone = 0"
| "scan_code e = -1"

function scanAdditionalLayerInfo :: "qstream \<Rightarrow> int \<Rightarrow> scan_exit \<times> qstream \<times> int" where
  "scanAdditionalLayerInfo ds remBytes =
     (if remBytes > 0 then
        if remBytes < uint PSDAdditionalLayerInfoDataOffset then (RemainderTooSmall, ds, remBytes)
        else if atEnd ds then (EndOfStream, ds, remBytes)
        else
          (let (additionalLayerInfo, ds1) =
                 read_PSDAdditionalLayerInfo ds
                   \<lparr>ali_signature = 0, characterCode = 0, ali_length = 0\<rparr>
           in if dev_error ds1 then (ScanIoError, ds1, remBytes)
              else if ali_signature additionalLayerInfo \<noteq> PSDSignature8BIM
              then (InvalidBlockSignature, ds1, remBytes)
              else
                (let align = 4 :: quint32;
                     rem = ali_length additionalLayerInfo mod align;
                     padding = (if rem = 0 then 0 else align - rem);
                     ds2 = skipRawData (unat (ali_length additionalLayerInfo + padding)) ds1
                 in scanAdditionalLayerInfo ds2
                      (remBytes - uint (ali_length additionalLayerInfo + padding
                                         + PSDAdditionalLayerInfoSize))))
      else (ScanDone, ds, remBytes))"
  by pat_completeness auto

lemma remaining_advance_le:
  "length (remaining (advance n ds)) \<le> length (remaining ds)"
  by (simp add: advance_def)

lemma remaining_advance_less:
  "0 < n \<Longrightarrow> remaining ds \<noteq> [] \<Longrightarrow> length (remaining (advance n ds)) < length (remaining ds)"
  by (simp add: advance_def)

lemma snd_read_be [simp]: "snd (read_be n ds) = advance n ds"
  by (simp add: read_be_def)

lemma snd_get_quint32 [simp]: "snd (get_quint32 ds) = advance 4 ds"
  by (simp add: get_quint32_def split: prod.splits) (metis snd_conv snd_read_be)

lemma remaining_read_PSDAdditionalLayerInfo_less:
  "remaining ds \<noteq> [] \<Longrightarrow>
   length (remaining (snd (read_PSDAdditionalLayerInfo ds d))) < length (remaining ds)"
proof -
  assume ne: "remaining ds \<noteq> []"
  have first: "length (remaining (advance 4 ds)) < length (remaining ds)"
    using ne by (simp add: remaining_advance_less)
  have "length (remaining (advance 4 (advance 4 (advance 4 ds))))
          \<le> length (remaining (advance 4 ds))"
    using remaining_advance_le [of 4 "advance 4 (advance 4 ds)"]
      remaining_advance_le [of 4 "advance 4 ds"]
    by linarith
  with first have "length (remaining (advance 4 (advance 4 (advance 4 ds)))) < length (remaining ds)"
    by linarith
  with first show ?thesis
    by (simp add: read_PSDAdditionalLayerInfo_def Let_def get_quint32_def read_be_def
             split: prod.splits)
qed

termination scanAdditionalLayerInfo
proof (relation "measure (\<lambda>(ds, remBytes). length (remaining ds))", goal_cases)
  case 1
  show ?case by simp
next
  case (2 ds remBytes x additionalLayerInfo ds1 align rem padding ds2)
  from 2 have ne: "remaining ds \<noteq> []"
    by (simp add: atEnd_def)
  from 2 have "ds1 = snd (read_PSDAdditionalLayerInfo ds
          \<lparr>ali_signature = 0, characterCode = 0, ali_length = 0\<rparr>)"
    by (metis snd_conv)
  with remaining_read_PSDAdditionalLayerInfo_less [OF ne]
  have "length (remaining ds1) < length (remaining ds)"
    by simp
  moreover from 2 have "length (remaining ds2) \<le> length (remaining ds1)"
    by (simp add: skipRawData_def remaining_advance_le)
  ultimately show ?case by simp
qed

declare scanAdditionalLayerInfo.simps [simp del]

text \<open>A stream freshly opened on the given bytes.\<close>

definition block_stream :: "byte list \<Rightarrow> qstream" where
  "block_stream bs = \<lparr>remaining = bs, position = 0, status_ok = True, dev_error = False\<rparr>"

text \<open>
  \<open>main\<close> declares \<open>PSDLayerRecord record;\<close> without an initialiser: the scalar fields
  hold whatever the memory held, \<open>channelInfos\<close> is the empty list its constructor makes.
  One such record, every scalar byte \<open>0xCD\<close>:
\<close>

definition garbage_record :: PSDLayerRecord where
  "garbage_record =
     \<lparr>top' = 0xCDCDCDCD, left = 0xCDCDCDCD, bottom = 0xCDCDCDCD, right = 0xCDCDCDCD,
      channels = 0xCDCD, channelInfos = [], signature = 0xCDCDCDCD,
      blendModeKey = 0xCDCDCDCD, opacity = 0xCD, clipping = 0xCD, flags = 0xCD,
      filler = 0xCD, extraDataFieldLength = 0xCDCDCDCD\<rparr>"

section \<open>The channel compositor: \<open>compoundLayerChannel\<close>\<close>

text \<open>
  A \<open>QImage\<close> of \<open>Format_ARGB32\<close>: its pixels, row by row, each a 32-bit value
  \<open>0xAARRGGBB\<close>; \<open>pixel\<close> and \<open>setPixel\<close> read and write one of them. The function
  returns nothing; its two early returns differ from running to the end only in the
  message they print, and the model returns which exit was taken beside the image.
  The nested loops run over \<open>raster_order\<close>: \<open>y\<close> outside, \<open>x\<close> inside.
  \<open>bytes.at(offset) & 0xFFU\<close> sign-extends the \<open>char\<close> and masks it.
\<close>

record QImage =
  img_width :: nat
  img_height :: nat
  pixels :: "quint32 list"

definition pixel :: "QImage \<Rightarrow> nat \<Rightarrow> nat \<Rightarrow> quint32" where
  "pixel img x y = pixels img ! (y * img_width img + x)"

definition setPixel :: "QImage \<Rightarrow> nat \<Rightarrow> nat \<Rightarrow> quint32 \<Rightarrow> QImage" where
  "setPixel img x y v = img\<lparr>pixels := (pixels img)[y * img_width img + x := v]\<rparr>"

datatype compound_exit = Composited | SourceOutOfRange | UnknownChannel

definition composite_switch :: "int \<Rightarrow> quint32 \<Rightarrow> quint32 \<Rightarrow> quint32 option" where
  "composite_switch channel px subPixel =
     (if channel = -1 then Some ((px AND 0x00FFFFFF) OR push_bit 24 subPixel)
      else if channel = 0 then Some ((px AND 0xFF00FFFF) OR push_bit 16 subPixel)
      else if channel = 1 then Some ((px AND 0xFFFF00FF) OR push_bit 8 subPixel)
      else if channel = 2 then Some ((px AND 0xFFFFFF00) OR push_bit 0 subPixel)
      else None)"

definition raster_order :: "nat \<Rightarrow> nat \<Rightarrow> (nat \<times> nat) list" where
  "raster_order w h = concat (map (\<lambda>y. map (\<lambda>x. (x, y)) [0..<w]) [0..<h])"

fun compound_loop ::
  "(nat \<times> nat) list \<Rightarrow> QImage \<Rightarrow> byte list \<Rightarrow> int \<Rightarrow> compound_exit \<times> QImage" where
  "compound_loop [] img bytes channel = (Composited, img)"
| "compound_loop ((x, y) # rest) img bytes channel =
     (let px = pixel img x y; offset = y * img_width img + x in
      if offset \<ge> length bytes then (SourceOutOfRange, img)
      else (let subPixel = scast (bytes ! offset) AND 0xFF in
            case composite_switch channel px subPixel of
              None \<Rightarrow> (UnknownChannel, img)
            | Some px' \<Rightarrow> compound_loop rest (setPixel img x y px') bytes channel))"

definition compoundLayerChannel :: "QImage \<Rightarrow> byte list \<Rightarrow> int \<Rightarrow> compound_exit \<times> QImage" where
  "compoundLayerChannel img bytes channel =
     compound_loop (raster_order (img_width img) (img_height img)) img bytes channel"

text \<open>
  The spec's default raster (every pixel transparent black), and the four byte lanes of
  a pixel, as \<open>qAlpha\<close>, \<open>qRed\<close>, \<open>qGreen\<close>, \<open>qBlue\<close> of Qt read them; \<open>lane\<close> selects
  one by the channel identifier.
\<close>

definition default_raster :: "nat \<Rightarrow> nat \<Rightarrow> QImage" where
  "default_raster w h = \<lparr>img_width = w, img_height = h, pixels = replicate (w * h) 0\<rparr>"

definition qAlpha :: "quint32 \<Rightarrow> byte" where "qAlpha p = ucast (drop_bit 24 p)"
definition qRed :: "quint32 \<Rightarrow> byte" where "qRed p = ucast (drop_bit 16 p)"
definition qGreen :: "quint32 \<Rightarrow> byte" where "qGreen p = ucast (drop_bit 8 p)"
definition qBlue :: "quint32 \<Rightarrow> byte" where "qBlue p = ucast p"

definition lane :: "int \<Rightarrow> quint32 \<Rightarrow> byte" where
  "lane c p = (if c = -1 then qAlpha p else if c = 0 then qRed p
               else if c = 1 then qGreen p else qBlue p)"

section \<open>Loading one layer: \<open>loadPSDLayer\<close>\<close>

text \<open>
  \<open>QImage image(width, height, QImage::Format_ARGB32)\<close>: a null image (no pixels) when
  a dimension is not positive, otherwise \<open>width * height\<close> pixels that the constructor
  does not initialise; \<open>garbage\<close> gives what each of them holds.
\<close>

definition new_QImage :: "int \<Rightarrow> int \<Rightarrow> (nat \<Rightarrow> quint32) \<Rightarrow> QImage" where
  "new_QImage width height garbage =
     (if width \<le> 0 \<or> height \<le> 0 then \<lparr>img_width = 0, img_height = 0, pixels = []\<rparr>
      else \<lparr>img_width = nat width, img_height = nat height,
             pixels = map garbage [0..<nat width * nat height]\<rparr>)"

text \<open>
  The exits of \<open>loadPSDLayer\<close>: \<open>*ok = true\<close>, or one of the jumps to
  \<open>compression_error\<close>. With RLE data and a negative dimension, or a product of the
  dimensions beyond \<open>INT_MAX\<close>, \<open>uncompressRLE\<close> is called outside the domain on which it
  is modelled; the model stops there with \<open>OutsideModel\<close>. \<open>length\<close> is the unsigned 32-bit
  difference \<open>correspondingChannelDataLength - 2\<close>. What the compositor reports is dropped, as
  in the source.
\<close>

datatype load_exit =
  LoadOk | BadStreamStatus | UncompressFailed | UnsupportedCompression | OutsideModel

fun load_channels ::
  "PSDChannelInfo list \<Rightarrow> int \<Rightarrow> int \<Rightarrow> qstream \<Rightarrow> QImage \<Rightarrow> load_exit \<times> qstream \<times> QImage"
where
  "load_channels [] width height ds img = (LoadOk, ds, img)"
| "load_channels (info # infos) width height ds img =
     (let (compressionMode, ds) = get_quint16 ds in
      if \<not> status_ok ds then (BadStreamStatus, ds, img)
      else
        (let len = unat (correspondingChannelDataLength info - 2) in
         if compressionMode = 0 then
           (let (raw, ds) = readRawData len ds;
                (e, img) = compoundLayerChannel img raw (sint (channelId info))
            in load_channels infos width height ds img)
         else if compressionMode = 1 then
           (let (compressed, ds) = readRawData len ds in
            if width < 0 \<or> height < 0 \<or> width * height > 2147483647
            then (OutsideModel, ds, img)
            else
              (let raw = uncompressRLE (nat width) (nat height) compressed in
               if int (length raw) \<noteq> width * height then (UncompressFailed, ds, img)
               else (let (e, img) = compoundLayerChannel img raw (sint (channelId info))
                     in load_channels infos width height ds img)))
         else (UnsupportedCompression, ds, img)))"

definition loadPSDLayer ::
  "qstream \<Rightarrow> PSDLayerRecord \<Rightarrow> (nat \<Rightarrow> quint32) \<Rightarrow> load_exit \<times> qstream \<times> QImage" where
  "loadPSDLayer ds rec garbage =
     (let width = sint (right rec - left rec);
          height = sint (bottom rec - top' rec);
          img = new_QImage width height garbage
      in case load_channels (channelInfos rec) width height ds img of
           (LoadOk, ds, img) \<Rightarrow> (LoadOk, ds, img)
         | (e, ds, img) \<Rightarrow> (e, ds, \<lparr>img_width = 0, img_height = 0, pixels = []\<rparr>))"

section \<open>The document walker: \<open>main\<close>\<close>

text \<open>
  What a run of \<open>main\<close> leaves behind: its return value, the layer records it read, the
  images it saved (\<open>layerN.png\<close>, in order), whether it printed the
  \<open>layerInfo.length\<close> mismatch, the lengths of the layer-and-mask section and of the
  global layer mask info, and the budget it handed to \<open>scanAdditionalLayerInfo\<close> (if it
  got that far).
\<close>

record walk_result =
  exit_code :: int
  records_parsed :: "PSDLayerRecord list"
  saved :: "QImage list"
  mismatch_reported :: bool
  lam_length :: quint32
  glmi_length :: quint32
  scan_budget :: "int option"

text \<open>
  The state of \<open>main\<close> when every layer has been loaded: the stream,
  \<open>layerAndMaskInfoSection.length\<close>, \<open>layerInfo.length\<close>, \<open>consumedLayerInfoSize\<close>,
  the records and the images.
\<close>

record walk_state =
  ws_stream :: qstream
  ws_lam_length :: quint32
  ws_li_length :: quint32
  ws_consumed :: quint32
  ws_records :: "PSDLayerRecord list"
  ws_images :: "QImage list"

definition early_exit :: "PSDLayerRecord list \<Rightarrow> QImage list \<Rightarrow> walk_result" where
  "early_exit records images =
     \<lparr>exit_code = -1, records_parsed = records, saved = images, mismatch_reported = False,
      lam_length = 0, glmi_length = 0, scan_budget = None\<rparr>"

text \<open>
  The loop over the layer records. \<open>fresh layer\<close> is what the uninitialised
  \<open>PSDLayerRecord record;\<close> of round \<open>layer\<close> holds (its \<open>channelInfos\<close> is empty).
  \<open>consumedLayerInfoSize\<close> is a \<open>quint32\<close>; the 64-bit sums added to it are cut to 32
  bits by the assignment. \<open>None\<close> is the \<open>return -1\<close> after a device error.
\<close>

fun read_records ::
  "nat \<Rightarrow> nat \<Rightarrow> (nat \<Rightarrow> PSDLayerRecord) \<Rightarrow> qstream \<Rightarrow> quint32 \<Rightarrow> PSDLayerRecord list
     \<Rightarrow> (qstream \<times> quint32 \<times> PSDLayerRecord list) option" where
  "read_records 0 layer fresh ds consumed records = Some (ds, consumed, records)"
| "read_records (Suc n) layer fresh ds consumed records =
     (let (rec, ds) = read_PSDLayerRecord ds ((fresh layer)\<lparr>channelInfos := []\<rparr>) in
      if dev_error ds then None
      else
        (let records = records @ [rec];
             consumed = consumed + (PSDLayerRecordSize
                          + PSDChannelInfosize * word_of_nat (length (channelInfos rec)));
             consumed = consumed + extraDataFieldLength rec;
             ds = skipRawData (unat (extraDataFieldLength rec)) ds
         in if dev_error ds then None
            else read_records n (Suc layer) fresh ds consumed records))"

text \<open>
  The loop that loads and saves the layers; \<open>garbage i\<close> is the uninitialised memory of
  the image of layer \<open>i\<close>. The flag is false after \<open>loadPSDLayer failed\<close>.
\<close>

fun load_layers ::
  "PSDLayerRecord list \<Rightarrow> nat \<Rightarrow> (nat \<Rightarrow> nat \<Rightarrow> quint32) \<Rightarrow> qstream \<Rightarrow> QImage list
     \<Rightarrow> bool \<times> qstream \<times> QImage list" where
  "load_layers [] i garbage ds images = (True, ds, images)"
| "load_layers (rec # recs) i garbage ds images =
     (case loadPSDLayer ds rec (garbage i) of
        (LoadOk, ds, img) \<Rightarrow> load_layers recs (Suc i) garbage ds (images @ [img])
      | (e, ds, img) \<Rightarrow> (False, ds, images))"

text \<open>The two nested \<open>foreach\<close> loops that sum \<open>channelImageDataSize\<close>, a \<open>quint32\<close>.\<close>

definition channelImageDataSize :: "PSDLayerRecord list \<Rightarrow> quint32" where
  "channelImageDataSize records =
     foldl (\<lambda>acc rec. foldl (\<lambda>acc info. acc + correspondingChannelDataLength info)
                           acc (channelInfos rec)) 0 records"

text \<open>
  \<open>main\<close> up to the end of the layer loop, on a stream already opened. \<open>Inl\<close> is a
  \<open>return -1\<close>. \<open>absoluteLayerCount\<close> is \<open>std::abs\<close> of the \<open>qint16\<close>, taken in \<open>int\<close>.
\<close>

definition parse_layers ::
  "qstream \<Rightarrow> (nat \<Rightarrow> PSDLayerRecord) \<Rightarrow> (nat \<Rightarrow> nat \<Rightarrow> quint32) \<Rightarrow> walk_result + walk_state"
where
  "parse_layers ds fresh garbage =
     (let (fileHeader, ds) = read_PSDFileHeaderSection ds in
      if fh_signature fileHeader \<noteq> PSDSignature8BPS then Inl (early_exit [] [])
      else if fh_version fileHeader \<noteq> 1 then Inl (early_exit [] [])
      else
        (let (colorModeLength, ds) = read_skipped_section ds;
             (imageResourceLength, ds) = read_skipped_section ds;
             (lamLength, ds) = get_quint32 ds;
             consumedLayerInfoSize = 0 :: quint32;
             ((liLength, layerCount), ds) = read_PSDLayerInfo ds;
             consumedLayerInfoSize = consumedLayerInfoSize + 2;
             absoluteLayerCount = nat \<bar>sint layerCount\<bar>
         in case read_records absoluteLayerCount 0 fresh ds consumedLayerInfoSize [] of
              None \<Rightarrow> Inl (early_exit [] [])
            | Some (ds, consumedLayerInfoSize, records) \<Rightarrow>
                (case load_layers records 0 garbage ds [] of
                   (False, ds, images) \<Rightarrow> Inl (early_exit records images)
                 | (True, ds, images) \<Rightarrow>
                     Inr \<lparr>ws_stream = ds, ws_lam_length = lamLength, ws_li_length = liLength,
                          ws_consumed = consumedLayerInfoSize, ws_records = records,
                          ws_images = images\<rparr>)))"

text \<open>
  The rest of \<open>main\<close>: the padding after the channel data, the reconciliation of
  \<open>layerInfo.length\<close>, the global layer mask info and the scan of the additional
  blocks. \<open>sizeof\<close> makes the two subtractions 64-bit (\<open>size_t\<close>); their results are
  stored in the \<open>quint32 layerAndMaskInfoRem\<close>, which the scanner receives as a
  \<open>qint64\<close>.
\<close>

definition finish_walk :: "walk_state \<Rightarrow> walk_result" where
  "finish_walk st =
     (let ds = ws_stream st;
          chan = channelImageDataSize (ws_records st);
          align = 2 :: quint32;
          rem = chan mod align;
          padding = (if rem = 0 then 0 else align - rem);
          ds = (if padding \<noteq> 0 then skipRawData (unat padding) ds else ds);
          mismatch = (ws_li_length st \<noteq> ws_consumed st + chan);
          layerAndMaskInfoRem = (ucast ((ucast (ws_lam_length st) :: 64 word)
                                   - (4 + ucast (ws_consumed st) + ucast chan)) :: quint32);
          (glmiLength, ds) = read_PSDGlobalLayerMaskInfo ds
      in if dev_error ds then
           \<lparr>exit_code = -1, records_parsed = ws_records st, saved = ws_images st,
            mismatch_reported = mismatch, lam_length = ws_lam_length st,
            glmi_length = glmiLength, scan_budget = None\<rparr>
         else
           (let layerAndMaskInfoRem = (ucast ((ucast layerAndMaskInfoRem :: 64 word)
                                         - (ucast glmiLength + 4)) :: quint32);
                (e, ds, remBytes) = scanAdditionalLayerInfo ds (uint layerAndMaskInfoRem)
            in \<lparr>exit_code = (if scan_code e \<noteq> 0 then -1 else 0),
                 records_parsed = ws_records st, saved = ws_images st,
                 mismatch_reported = mismatch, lam_length = ws_lam_length st,
                 glmi_length = glmiLength, scan_budget = Some (uint layerAndMaskInfoRem)\<rparr>))"

definition main_walk ::
  "qstream \<Rightarrow> (nat \<Rightarrow> PSDLayerRecord) \<Rightarrow> (nat \<Rightarrow> nat \<Rightarrow> quint32) \<Rightarrow> walk_result" where
  "main_walk ds fresh garbage =
     (case parse_layers ds fresh garbage of
        Inl r \<Rightarrow> r
      | Inr st \<Rightarrow> finish_walk st)"

text \<open>
  The two byte counts as the specification describes them: the layer-count field, and for
  every record its fixed fields, its channel descriptors and its extra data; and the sum
  of the declared lengths of all channels of all records. Both in unsigned 32-bit
  arithmetic, as the sums of the source are.
\<close>

definition consumedLayerInfoBytes :: "PSDLayerRecord list \<Rightarrow> quint32" where
  "consumedLayerInfoBytes records =
     2 + sum_list (map (\<lambda>rec. PSDLayerRecordSize
                          + PSDChannelInfosize * word_of_nat (length (channelInfos rec))
                          + extraDataFieldLength rec) records)"

definition channelImageDataBytes :: "PSDLayerRecord list \<Rightarrow> quint32" where
  "channelImageDataBytes records =
     sum_list (map correspondingChannelDataLength (concat (map channelInfos records)))"

section \<open>Two small documents\<close>

text \<open>
  \<open>one_layer_document\<close>: a header, empty colour-mode and image-resource sections, a
  layer-and-mask section of declared length 53 with one layer of 1 by 1 pixel, whose
  single channel (red) is stored raw; the layer info declares a length of 46 where 45
  bytes are accounted for. \<open>underrun_document\<close>: no layer, a layer-and-mask section
  that declares length 0, and one additional block with a declared payload of
  \<open>0xFFFFFFF0\<close> bytes.
\<close>

definition one_layer_document :: "byte list" where
  "one_layer_document =
     [0x38, 0x42, 0x50, 0x53, 0, 1, 0, 0, 0, 0, 0, 0, 0, 1,
      0, 0, 0, 1, 0, 0, 0, 1, 0, 8, 0, 3,
      0, 0, 0, 0,
      0, 0, 0, 0,
      0, 0, 0, 53,
      0, 0, 0, 46, 0, 1,
      0, 0, 0, 0, 0, 0, 0, 0, 0, 0, 0, 1, 0, 0, 0, 1,
      0, 1, 0, 0, 0, 0, 0, 3,
      0x38, 0x42, 0x49, 0x4D, 0x6E, 0x6F, 0x72, 0x6D, 0xFF, 0, 0, 0, 0, 0, 0, 0,
      0, 0, 0x7F,
      0,
      0, 0, 0, 0]"

definition underrun_document :: "byte list" where
  "underrun_document =
     [0x38, 0x42, 0x50, 0x53, 0, 1, 0, 0, 0, 0, 0, 0, 0, 1,
      0, 0, 0, 1, 0, 0, 0, 1, 0, 8, 0, 3,
      0, 0, 0, 0,
      0, 0, 0, 0,
      0, 0, 0, 0,
      0, 0, 0, 2, 0, 0,
      0, 0, 0, 0,
      0x38, 0x42, 0x49, 0x4D, 0x6C, 0x75, 0x6E, 0x69, 0xFF, 0xFF, 0xFF, 0xF0]"

section \<open>Properties of the RLE codec\<close>

lemma length_write_continuous [simp]:
  "length (write_continuous n d p scanLine) = length scanLine"
  by (induction n arbitrary: p scanLine) auto

lemma write_continuous_nth_other:
  "x < p \<or> p + n \<le> x \<Longrightarrow> write_continuous n d p scanLine ! x = scanLine ! x"
  by (induction n arbitrary: p scanLine) auto

lemma write_continuous_nth_in:
  "p \<le> x \<Longrightarrow> x < p + n \<Longrightarrow> p + n \<le> length scanLine \<Longrightarrow>
   write_continuous n d p scanLine ! x = d"
proof (induction n arbitrary: p scanLine)
  case 0
  then show ?case by simp
next
  case (Suc n)
  show ?case
  proof (cases "x = p")
    case True
    with Suc.prems show ?thesis
      by (simp add: write_continuous_nth_other)
  next
    case False
    with Suc.prems show ?thesis
      by (simp add: Suc.IH)
  qed
qed

lemma length_write_discontinuous [simp]:
  "length (fst (write_discontinuous n p scanLine s)) = length scanLine"
  by (induction n arbitrary: p scanLine s) (auto split: prod.splits)



lemma fold_update_length [simp]:
  "length (fold (\<lambda>x ch. ch[b + x := f x]) xs ch) = length ch"
  by (induction xs arbitrary: ch) auto

lemma fold_update_nth:
  "k < length ch \<Longrightarrow>
   fold (\<lambda>x ch. ch[b + x := f x]) [0..<n] ch ! k =
     (if b \<le> k \<and> k < b + n then f (k - b) else ch ! k)"
proof (induction n)
  case 0
  then show ?case by auto
next
  case (Suc n)
  show ?case
  proof (cases "k = b + n")
    case True
    with Suc.prems show ?thesis by simp
  next
    case False
    with Suc.prems show ?thesis
      by (auto simp: Suc.IH less_Suc_eq)
  qed
qed

lemma length_transfer_scanline [simp]:
  "length (transfer_scanline width y scanLine channel) = length channel"
  by (simp add: transfer_scanline_def)

lemma transfer_scanline_nth:
  "k < length channel \<Longrightarrow>
   transfer_scanline width y scanLine channel ! k =
     (if y * width \<le> k \<and> k < y * width + width
      then scanLine ! (k - y * width) else channel ! k)"
  by (simp add: transfer_scanline_def fold_update_nth)





section \<open>Round trip through the reference encoder\<close>

lemma sint_repeat:
  "2 \<le> n \<Longrightarrow> n \<le> 128 \<Longrightarrow> sint (word_of_int (1 - int n) :: byte) = 1 - int n"
  unfolding sint_sbintrunc' by (simp add: signed_take_bit_int_eq_self)

lemma sint_literal:
  "k < 128 \<Longrightarrow> sint (word_of_nat k :: byte) = int k"
proof -
  assume k: "k < 128"
  have "sint (word_of_int (int k) :: byte) = int k"
    unfolding sint_sbintrunc' using k by (simp add: signed_take_bit_int_eq_self)
  then show ?thesis by simp
qed

lemma write_continuous_eq:
  "p + n \<le> length scanLine \<Longrightarrow>
   write_continuous n d p scanLine = take p scanLine @ replicate n d @ drop (p + n) scanLine"
  by (rule nth_equalityI)
     (auto simp: nth_append write_continuous_nth_other write_continuous_nth_in)

lemma write_discontinuous_eq:
  "p + length bs \<le> length scanLine \<Longrightarrow>
   write_discontinuous (length bs) p scanLine (bs @ rest) =
     (take p scanLine @ bs @ drop (p + length bs) scanLine, rest)"
proof (induction bs arbitrary: p scanLine)
  case Nil
  then show ?case by simp
next
  case (Cons b bs)
  from Cons.prems have "Suc p + length bs \<le> length (scanLine[p := b])" by simp
  from Cons.IH [OF this] Cons.prems show ?case
    by (simp add: read_char_def upd_conv_take_nth_drop take_Suc_conv_app_nth)
qed

lemma splice_take:
  "p + length bs \<le> length scanLine \<Longrightarrow>
   take (p + length bs) (take p scanLine @ bs @ drop (p + length bs) scanLine) = take p scanLine @ bs"
  by simp

lemma splice_drop:
  "p + length bs \<le> length scanLine \<Longrightarrow>
   drop (p + length bs + k) (take p scanLine @ bs @ drop (p + length bs) scanLine)
     = drop (p + length bs + k) scanLine"
  by (simp add: add.commute)

lemma decode_runs_line_bytes:
  "list_all run_ok rs \<Longrightarrow> length scanLine = width \<Longrightarrow>
   p + length (line_expand rs) \<le> width \<Longrightarrow> len = i + length (line_bytes rs) \<Longrightarrow>
   decode_runs width len i p scanLine (line_bytes rs @ rest) =
     Some (take p scanLine @ line_expand rs @ drop (p + length (line_expand rs)) scanLine,
           p + length (line_expand rs), rest)"
proof (induction rs arbitrary: i p scanLine)
  case Nil
  then show ?case
    by (simp add: decode_runs.simps [of _ i i] line_bytes_def line_expand_def)
next
  case (Cons r rs)
  have ok: "run_ok r" "list_all run_ok rs" using Cons.prems(1) by simp_all
  show ?case
  proof (cases r)
    case (Literal bs)
    with ok have n: "1 \<le> length bs" "length bs \<le> 128" by simp_all
    let ?line2 = "take p scanLine @ bs @ drop (p + length bs) scanLine"
    have fit: "p + length bs \<le> length scanLine"
      using Cons.prems(2,3) Literal by (simp add: line_expand_def)
    have code: "sint (word_of_nat (length bs - Suc 0) :: byte) = int (length bs) - 1"
      using n sint_literal [of "length bs - Suc 0"] by (simp add: of_nat_diff)
    from n have ne: "bs \<noteq> []" by auto
    have step: "decode_runs width len i p scanLine (line_bytes (r # rs) @ rest) =
          decode_runs width len (i + 1 + length bs) (p + length bs) ?line2 (line_bytes rs @ rest)"
      using Cons.prems(2,4) Literal n fit ne
      by (subst decode_runs.simps)
         (simp add: line_bytes_def read_char_def code write_discontinuous_eq Let_def del: of_nat_diff)
    have "decode_runs width len (i + 1 + length bs) (p + length bs) ?line2 (line_bytes rs @ rest) =
          Some (take (p + length bs) ?line2 @ line_expand rs @
                  drop (p + length bs + length (line_expand rs)) ?line2,
                p + length bs + length (line_expand rs), rest)"
      using Cons.prems(2,3,4) Literal fit
      by (intro Cons.IH [OF ok(2)]) (simp_all add: line_expand_def line_bytes_def)
    with step fit Literal show ?thesis
      by (simp only: splice_take splice_drop) (simp add: line_expand_def add.assoc)
  next
    case (Repeat n b)
    with ok have n: "2 \<le> n" "n \<le> 128" by simp_all
    let ?line2 = "take p scanLine @ replicate n b @ drop (p + n) scanLine"
    have fit: "p + n \<le> length scanLine"
      using Cons.prems(2,3) Repeat by (simp add: line_expand_def)
    have "sint (word_of_int (1 - int n) :: byte) = 1 - int n"
      using n by (rule sint_repeat)
    then have code: "sint (1 - word_of_nat n :: byte) = 1 - int n"
      by simp
    have step: "decode_runs width len i p scanLine (line_bytes (r # rs) @ rest) =
          decode_runs width len (i + 2) (p + n) ?line2 (line_bytes rs @ rest)"
      using Cons.prems(2,4) Repeat n fit
      by (subst decode_runs.simps)
         (simp add: line_bytes_def read_char_def code write_continuous_eq Let_def)
    have "decode_runs width len (i + 2) (p + n) ?line2 (line_bytes rs @ rest) =
          Some (take (p + n) ?line2 @ line_expand rs @
                  drop (p + n + length (line_expand rs)) ?line2,
                p + n + length (line_expand rs), rest)"
      using Cons.prems(2,3,4) Repeat fit
      by (intro Cons.IH [OF ok(2)]) (simp_all add: line_expand_def line_bytes_def)
    with step fit Repeat
      splice_take [of p "replicate n b" scanLine]
      splice_drop [of p "replicate n b" scanLine "length (line_expand rs)"]
    show ?thesis
      by (simp add: line_expand_def add.assoc)
  qed
qed

lemma read_quint16_entry:
  "n < 65536 \<Longrightarrow>
   read_quint16 (word_of_nat (n div 256) # word_of_nat (n mod 256) # rest) = (word_of_nat n, rest)"
proof -
  assume n: "n < 65536"
  then have "n div 256 < 256" by simp
  then have "unat (word_of_nat (n div 256) :: byte) = n div 256"
    by (simp add: unat_of_nat)
  moreover have "unat (word_of_nat (n mod 256) :: byte) = n mod 256"
    by (simp add: unat_of_nat)
  ultimately have "be_nat [word_of_nat (n div 256), word_of_nat (n mod 256)] = n"
    by (simp add: be_nat_def)
  then show ?thesis
    by (simp add: read_quint16_def)
qed

lemma read_lengthTable_table_bytes:
  "list_all (\<lambda>n. n < 65536) ns \<Longrightarrow>
   read_lengthTable (length ns) (table_bytes ns @ rest) = Some (ns, rest)"
proof (induction ns)
  case Nil
  then show ?case by (simp add: table_bytes_def)
next
  case (Cons n ns)
  then have n: "n < 65536" and ih: "read_lengthTable (length ns) (table_bytes ns @ rest) = Some (ns, rest)"
    by simp_all
  from n have "unat (word_of_nat n :: quint16) = n"
    by (simp add: unat_of_nat)
  with read_quint16_entry [OF n, of "table_bytes ns @ rest"] ih show ?case
    by (simp add: table_bytes_def)
qed

lemma transfer_scanline_eq:
  "length scanLine = width \<Longrightarrow> y * width + width \<le> length channel \<Longrightarrow>
   transfer_scanline width y scanLine channel =
     take (y * width) channel @ scanLine @ drop (y * width + width) channel"
  by (rule nth_equalityI) (auto simp: transfer_scanline_nth nth_append)

lemma decode_scanlines_rows:
  "well_formed width rows \<Longrightarrow> length channel = width * height \<Longrightarrow>
   y + length rows = height \<Longrightarrow>
   decode_scanlines width y (map (\<lambda>row. length (line_bytes row)) rows)
      (concat (map line_bytes rows) @ rest) channel =
     Some (take (y * width) channel @ concat (map line_expand rows), replicate (length rows) width)"
proof (induction rows arbitrary: y channel)
  case Nil
  then show ?case by (simp add: mult.commute)
next
  case (Cons row rows)
  from Cons.prems(1) have row: "list_all run_ok row" "length (line_expand row) = width"
    and wf: "well_formed width rows"
    by (simp_all add: well_formed_def)
  let ?rest = "concat (map line_bytes rows) @ rest"
  have "decode_runs width (0 + length (line_bytes row)) 0 0 (replicate width 0) (line_bytes row @ ?rest)
        = Some (take 0 (replicate width 0) @ line_expand row @
                  drop (0 + length (line_expand row)) (replicate width 0),
                0 + length (line_expand row), ?rest)"
    using row by (intro decode_runs_line_bytes) simp_all
  then have runs: "decode_runs width (length (line_bytes row)) 0 0 (replicate width 0)
                      (line_bytes row @ ?rest) = Some (line_expand row, width, ?rest)"
    using row(2) by simp
  from Cons.prems(2,3) have "width * (Suc y + length rows) = length channel" by simp
  then have inside: "y * width + width \<le> length channel"
    by (metis add_Suc le_add1 mult.commute mult_Suc mult_le_mono2 add.commute)
  let ?channel2 = "take (y * width) channel @ line_expand row @ drop (y * width + width) channel"
  have tr: "transfer_scanline width y (line_expand row) channel = ?channel2"
    using row(2) inside by (rule transfer_scanline_eq)
  have len2: "length ?channel2 = width * height"
    using inside row(2) Cons.prems(2) by simp
  have "Suc y + length rows = height" using Cons.prems(3) by simp
  from Cons.IH [OF wf len2 this]
  have "decode_scanlines width (Suc y) (map (\<lambda>row. length (line_bytes row)) rows) ?rest ?channel2
        = Some (take (Suc y * width) ?channel2 @ concat (map line_expand rows),
                replicate (length rows) width)" .
  moreover have "take (Suc y * width) ?channel2 = take (y * width) channel @ line_expand row"
    using inside row(2) by (simp add: add.commute)
  ultimately show ?case
    using runs tr by simp
qed

lemma uncompressRLE_rle_stream:
  assumes wf: "well_formed width rows"
  shows "uncompressRLE width (length rows) (rle_stream rows) = concat (map line_expand rows)"
proof -
  have lens: "list_all (\<lambda>n. n < 65536) (map (\<lambda>row. length (line_bytes row)) rows)"
    using wf by (simp add: well_formed_def list_all_iff)
  have tbl: "read_lengthTable (length rows) (rle_stream rows) =
        Some (map (\<lambda>row. length (line_bytes row)) rows, concat (map line_bytes rows))"
    using read_lengthTable_table_bytes [OF lens, of "concat (map line_bytes rows)"]
    by (simp add: rle_stream_def)
  have "decode_scanlines width 0 (map (\<lambda>row. length (line_bytes row)) rows)
          (concat (map line_bytes rows) @ []) (replicate (width * length rows) 0)
        = Some (take (0 * width) (replicate (width * length rows) 0) @ concat (map line_expand rows),
                replicate (length rows) width)"
    using wf by (intro decode_scanlines_rows) simp_all
  with tbl show ?thesis
    by (simp add: uncompressRLE_def uncompressRLE_run_def)
qed

lemma length_concat_line_expand:
  "well_formed width rows \<Longrightarrow> length (concat (map line_expand rows)) = width * length rows"
  by (induction rows) (simp_all add: well_formed_def)

lemma take_run_prefix:
  "k \<le> length (takeWhile (\<lambda>x. x = b) bs) \<Longrightarrow> take k bs = replicate k b"
proof -
  assume k: "k \<le> length (takeWhile (\<lambda>x. x = b) bs)"
  let ?pre = "takeWhile (\<lambda>x. x = b) bs"
  have "\<forall>x\<in>set ?pre. x = b" by (auto dest: set_takeWhileD)
  then have pre: "?pre = replicate (length ?pre) b"
    by (simp add: replicate_length_same)
  have "take k bs = take k (?pre @ dropWhile (\<lambda>x. x = b) bs)" by simp
  also have "\<dots> = take k ?pre" using k by (simp del: takeWhile_dropWhile_id)
  also have "\<dots> = take k (replicate (length ?pre) b)" using pre by simp
  also have "\<dots> = replicate k b" using k by (simp add: min_absorb1)
  finally show ?thesis .
qed

lemma encode_line_props:
  "line_expand (encode_line xs) = xs \<and> list_all run_ok (encode_line xs) \<and>
   length (line_bytes (encode_line xs)) \<le> 2 * length xs"
proof (induction xs rule: encode_line.induct)
  case 1
  show ?case by (simp add: line_expand_def line_bytes_def)
next
  case (2 b bs)
  define k where "k = min 127 (length (takeWhile (\<lambda>x. x = b) bs))"
  show ?case
  proof (cases "k = 0")
    case True
    with "2.IH"(1) [OF k_def True] show ?thesis
      by (simp add: k_def [symmetric] line_expand_def line_bytes_def)
  next
    case False
    have kle: "k \<le> length (takeWhile (\<lambda>x. x = b) bs)" "k \<le> 127"
      by (simp_all add: k_def)
    have "k \<le> length bs"
      using kle(1) length_takeWhile_le [of "\<lambda>x. x = b" bs] by linarith
    then have shorter: "2 * (length bs - k) \<le> 2 * length bs"
      by simp
    have "replicate k b @ drop k bs = take k bs @ drop k bs"
      using take_run_prefix [OF kle(1)] by simp
    then have whole: "replicate k b @ drop k bs = bs"
      by simp
    from "2.IH"(2) [OF k_def False] have ih:
      "concat (map run_expand (encode_line (drop k bs))) = drop k bs"
      "list_all run_ok (encode_line (drop k bs))"
      "length (concat (map run_bytes (encode_line (drop k bs)))) \<le> 2 * (length bs - k)"
      by (simp_all add: line_expand_def line_bytes_def)
    from ih(3) shorter
    have "length (concat (map run_bytes (encode_line (drop k bs)))) \<le> 2 * length bs"
      by (rule le_trans)
    with ih(1,2) whole False kle(2) show ?thesis
      by (simp add: k_def [symmetric] line_expand_def line_bytes_def)
  qed
qed

lemma concat_split_rows_take:
  "concat (split_rows width height plane) = take (height * width) plane"
proof (induction height)
  case 0
  show ?case by (simp add: split_rows_def)
next
  case (Suc height)
  have "take (Suc height * width) plane = take (height * width + width) plane"
    by (simp add: add.commute)
  also have "\<dots> = take (height * width) plane @ take width (drop (height * width) plane)"
    by (rule take_add)
  finally show ?case
    using Suc by (simp add: split_rows_def)
qed

lemma length_split_rows:
  "length plane = width * height \<Longrightarrow> row \<in> set (split_rows width height plane) \<Longrightarrow>
   length row = width"
proof -
  assume len: "length plane = width * height" and "row \<in> set (split_rows width height plane)"
  then obtain y where y: "y < height" and row: "row = take width (drop (y * width) plane)"
    by (auto simp: split_rows_def)
  from y have "Suc y * width \<le> height * width"
    by (intro mult_le_mono1) simp
  with len have "width \<le> length plane - y * width"
    by (simp add: mult.commute)
  with row show ?thesis by simp
qed

lemma reference_encoder_well_formed:
  assumes len: "length plane = width * height" and w: "width \<le> 32767"
  shows "well_formed width (map encode_line (split_rows width height plane)) \<and>
         concat (map line_expand (map encode_line (split_rows width height plane))) = plane"
proof -
  have "concat (map line_expand (map encode_line (split_rows width height plane)))
        = concat (split_rows width height plane)"
    by (simp add: encode_line_props comp_def)
  also have "\<dots> = plane"
    using len by (simp add: concat_split_rows_take mult.commute)
  finally have whole: "concat (map line_expand (map encode_line (split_rows width height plane))) = plane" .
  have "list_all run_ok (encode_line row) \<and> length (line_expand (encode_line row)) = width \<and>
        length (line_bytes (encode_line row)) < 65536"
    if "row \<in> set (split_rows width height plane)" for row
  proof -
    have lr: "length row = width" using len that by (rule length_split_rows)
    from encode_line_props [of row] have "length (line_bytes (encode_line row)) \<le> 2 * width"
      using lr by simp
    with w lr encode_line_props [of row] show ?thesis by simp
  qed
  then have "well_formed width (map encode_line (split_rows width height plane))"
    by (simp add: well_formed_def list_all_iff)
  with whole show ?thesis by simp
qed

text \<open>
  Claim C1. For every plane of \<open>width * height\<close> bytes, \<open>width\<close> and \<open>height\<close> positive,
  and every output of a reference encoder for it (a well-formed length table and runs
  whose scanlines expand to the plane), \<open>uncompressRLE\<close> gives back the plane.
\<close>

theorem rle_round_trip:
  assumes "0 < width" and "0 < height" and "length plane = width * height"
    and "well_formed width rows" and "concat (map line_expand rows) = plane"
  shows "uncompressRLE width height (rle_stream rows) = plane"
proof -
  from assms(4) have "length (concat (map line_expand rows)) = width * length rows"
    by (rule length_concat_line_expand)
  with assms(1,3,5) have "length rows = height" by simp
  with uncompressRLE_rle_stream [OF assms(4)] assms(5) show ?thesis by simp
qed

theorem rle_round_trip_witness:
  "uncompressRLE 3 2 (compress 3 2 [5, 5, 5, 1, 2, 2]) = [5, 5, 5, 1, 2, 2]"
proof -
  have rows: "map encode_line (split_rows 3 2 [5, 5, 5, 1, 2, 2])
              = [[Repeat 3 5], [Literal [1], Repeat 2 2]]"
    by (simp add: split_rows_def upt_rec numeral_2_eq_2 numeral_3_eq_3)
  have wf: "well_formed 3 [[Repeat 3 5], [Literal [1], Repeat 2 2]]"
    by (simp add: well_formed_def line_expand_def line_bytes_def)
  have ex: "concat (map line_expand [[Repeat 3 5], [Literal [1], Repeat 2 2]])
            = [5, 5, 5, 1, 2, 2]"
    by (simp add: line_expand_def numeral_2_eq_2 numeral_3_eq_3)
  show ?thesis
    unfolding compress_def rows
    by (rule rle_round_trip [OF _ _ _ wf ex]) simp_all
qed

text \<open>
  Claim C4 does not hold of the code: a control byte of \<open>-128\<close> is taken for a repeat
  run of \<open>1 - (-128) = 129\<close> bytes. On a scanline narrower than 129 the decode fails;
  on a wider one the next byte is written 129 times.
\<close>

theorem uncompressRLE_control_minus_128:
  "uncompressRLE 2 1 [0, 3, 0x80, 0xFF, 7] = [] \<and>
   uncompressRLE 129 1 [0, 2, 0x80, 7] = replicate 129 7"
  by code_simp

section \<open>Properties of the additional-block scanner\<close>

lemmas stream_defs = get_quint32_def get_quint16_def get_quint8_def read_be_def advance_def
  be_nat_def skipRawData_def readRawData_def atEnd_def

lemma scan_budget_inv:
  "(fst (scanAdditionalLayerInfo ds remBytes) = ScanDone \<longleftrightarrow>
      snd (snd (scanAdditionalLayerInfo ds remBytes)) \<le> 0) \<and>
   snd (snd (scanAdditionalLayerInfo ds remBytes)) \<le> remBytes \<and>
   (remBytes \<le> 0 \<longrightarrow> snd (snd (scanAdditionalLayerInfo ds remBytes)) = remBytes) \<and>
   (0 < remBytes \<longrightarrow> - (2 ^ 32) < snd (snd (scanAdditionalLayerInfo ds remBytes)))"
proof (induction ds remBytes rule: scanAdditionalLayerInfo.induct)
  case (1 ds remBytes)
  show ?case
  proof (cases "0 < remBytes \<and> \<not> remBytes < 8 \<and> \<not> atEnd ds")
    case False
    then show ?thesis
      by (subst (1 2 3 4 5) scanAdditionalLayerInfo.simps) auto
  next
    case True
    obtain info ds1 where rd: "read_PSDAdditionalLayerInfo ds
        \<lparr>ali_signature = 0, characterCode = 0, ali_length = 0\<rparr> = (info, ds1)"
      by (cases "read_PSDAdditionalLayerInfo ds
        \<lparr>ali_signature = 0, characterCode = 0, ali_length = 0\<rparr>")
    show ?thesis
    proof (cases "dev_error ds1 \<or> ali_signature info \<noteq> PSDSignature8BIM")
      case stop: True
      with True rd show ?thesis
        by (subst (1 2 3 4 5) scanAdditionalLayerInfo.simps) auto
    next
      case go: False
      define padding :: quint32 where
        "padding = (if ali_length info mod 4 = 0 then 0 else 4 - ali_length info mod 4)"
      define ds2 where "ds2 = skipRawData (unat (ali_length info + padding)) ds1"
      define consumed where "consumed = uint (ali_length info + padding + PSDAdditionalLayerInfoSize)"
      have unfold: "scanAdditionalLayerInfo ds remBytes
                    = scanAdditionalLayerInfo ds2 (remBytes - consumed)"
        using True rd go
        by (subst scanAdditionalLayerInfo.simps)
           (simp add: Let_def padding_def ds2_def consumed_def)
      have c: "0 \<le> consumed" "consumed < 2 ^ 32"
        using uint_lt2p [of "ali_length info + padding + PSDAdditionalLayerInfoSize"]
        by (simp_all add: consumed_def)
      have ih: "(fst (scanAdditionalLayerInfo ds2 (remBytes - consumed)) = ScanDone \<longleftrightarrow>
            snd (snd (scanAdditionalLayerInfo ds2 (remBytes - consumed))) \<le> 0) \<and>
         snd (snd (scanAdditionalLayerInfo ds2 (remBytes - consumed))) \<le> remBytes - consumed \<and>
         (remBytes - consumed \<le> 0 \<longrightarrow>
            snd (snd (scanAdditionalLayerInfo ds2 (remBytes - consumed))) = remBytes - consumed) \<and>
         (0 < remBytes - consumed \<longrightarrow>
            - (2 ^ 32) < snd (snd (scanAdditionalLayerInfo ds2 (remBytes - consumed))))"
        using "1.IH" [of "(info, ds1)" info ds1 4 "ali_length info mod 4" padding ds2] True rd go
        by (simp add: padding_def ds2_def consumed_def)
      show ?thesis
        unfolding unfold using ih c True
        by (cases "remBytes - consumed \<le> 0") auto
    qed
  qed
qed

lemma scan_one_empty_block:
  "scanAdditionalLayerInfo (block_stream [0x38, 0x42, 0x49, 0x4D, 1, 2, 3, 4, 0, 0, 0, 0]) 8
     = (ScanDone, \<lparr>remaining = [], position = 12, status_ok = True, dev_error = False\<rparr>, -4)"
  by (simp add: block_stream_def scanAdditionalLayerInfo.simps read_PSDAdditionalLayerInfo_def
        stream_defs Let_def)

text \<open>
  Claim C3, as amended. The loop tests the budget only at the top of a round. With a
  positive budget below 8 (\<open>PSDAdditionalLayerInfoDataOffset\<close>) the scan fails with
  "remainder bytes too small". Nothing looks at the sign of the budget after a block's
  consumed bytes were subtracted: a budget that reached 0 or went below ends the loop
  and the scan returns success. So the scan returns success exactly when its final
  budget is at most 0, and from a positive budget the final budget lies above \<open>-2^32\<close>
  and never above the initial one.
\<close>

theorem scan_budget:
  "(0 < remBytes \<and> remBytes < 8 \<longrightarrow>
      fst (scanAdditionalLayerInfo ds remBytes) = RemainderTooSmall) \<and>
   (fst (scanAdditionalLayerInfo ds remBytes) = ScanDone \<longleftrightarrow>
      snd (snd (scanAdditionalLayerInfo ds remBytes)) \<le> 0) \<and>
   (0 < remBytes \<longrightarrow>
      - (2 ^ 32) < snd (snd (scanAdditionalLayerInfo ds remBytes)) \<and>
      snd (snd (scanAdditionalLayerInfo ds remBytes)) \<le> remBytes)"
proof -
  have "fst (scanAdditionalLayerInfo ds remBytes) = RemainderTooSmall"
    if "0 < remBytes" "remBytes < 8"
    using that by (subst scanAdditionalLayerInfo.simps) simp
  with scan_budget_inv [of ds remBytes] show ?thesis by blast
qed

theorem scan_budget_witness:
  "fst (scanAdditionalLayerInfo (block_stream []) 5) = RemainderTooSmall \<and>
   fst (scanAdditionalLayerInfo
          (block_stream [0x38, 0x42, 0x49, 0x4D, 1, 2, 3, 4, 0, 0, 0, 0]) 8) = ScanDone \<and>
   snd (snd (scanAdditionalLayerInfo
          (block_stream [0x38, 0x42, 0x49, 0x4D, 1, 2, 3, 4, 0, 0, 0, 0]) 8)) = -4"
proof -
  have a: "fst (scanAdditionalLayerInfo (block_stream []) 5) = RemainderTooSmall"
    using scan_budget [of 5 "block_stream []"] by simp
  have fin: "snd (snd (scanAdditionalLayerInfo
          (block_stream [0x38, 0x42, 0x49, 0x4D, 1, 2, 3, 4, 0, 0, 0, 0]) 8)) = -4"
    by (simp add: scan_one_empty_block)
  have b: "fst (scanAdditionalLayerInfo
          (block_stream [0x38, 0x42, 0x49, 0x4D, 1, 2, 3, 4, 0, 0, 0, 0]) 8) = ScanDone"
    using scan_budget [of 8 "block_stream [0x38, 0x42, 0x49, 0x4D, 1, 2, 3, 4, 0, 0, 0, 0]"] fin
    by simp
  from a b fin show ?thesis by simp
qed

text \<open>
  Claim C3 as stated fails: with a budget of 8, one block with an empty payload costs
  12 bytes, the budget becomes \<open>-4\<close>, and the scan returns 0.
\<close>

theorem scan_negative_budget_succeeds:
  "scan_code (fst (scanAdditionalLayerInfo
      (block_stream [0x38, 0x42, 0x49, 0x4D, 1, 2, 3, 4, 0, 0, 0, 0]) 8)) = 0 \<and>
   snd (snd (scanAdditionalLayerInfo
      (block_stream [0x38, 0x42, 0x49, 0x4D, 1, 2, 3, 4, 0, 0, 0, 0]) 8)) < 0"
  by (simp add: scan_one_empty_block)

text \<open>
  Claim C2 does not hold of the code: the scanner compares the tag with \<open>8BIM\<close> only.
  A block tagged \<open>8B64\<close> is rejected, and so is one tagged with the bytes of the
  constant \<open>PSDSignature8B64\<close> (which spell \<open>8b64\<close>), although the reader of the block
  header accepts the latter; a block tagged \<open>8BIM\<close> is accepted.
\<close>

theorem scan_rejects_8B64:
  "fst (scanAdditionalLayerInfo
          (block_stream [0x38, 0x42, 0x36, 0x34, 1, 2, 3, 4, 0, 0, 0, 0]) 12)
     = InvalidBlockSignature \<and>
   fst (scanAdditionalLayerInfo
          (block_stream [0x38, 0x62, 0x36, 0x34, 1, 2, 3, 4, 0, 0, 0, 0]) 12)
     = InvalidBlockSignature \<and>
   fst (scanAdditionalLayerInfo
          (block_stream [0x38, 0x42, 0x49, 0x4D, 1, 2, 3, 4, 0, 0, 0, 0]) 12)
     = ScanDone"
  by (simp add: block_stream_def scanAdditionalLayerInfo.simps read_PSDAdditionalLayerInfo_def
        stream_defs Let_def)

section \<open>Properties of the layer record reader\<close>

lemma remaining_advance [simp]:
  "remaining (advance n ds) = drop n (remaining ds)"
  by (simp add: advance_def)

lemma position_advance [simp]:
  "position (advance n ds) = position ds + min n (length (remaining ds))"
  by (simp add: advance_def)

lemma min_chain: "min a (L::nat) + min b (L - a) = min (a + b) L"
  by (auto simp: min_def)

lemma position_advance_advance:
  "position (advance m (advance n ds)) = position ds + min (n + m) (length (remaining ds))"
  using min_chain [of n "length (remaining ds)" m] by simp

lemma read_channelInfos_consumes:
  "length (fst (read_channelInfos n ds infos)) = length infos + n \<and>
   remaining (snd (read_channelInfos n ds infos)) = drop (6 * n) (remaining ds) \<and>
   position (snd (read_channelInfos n ds infos))
     = position ds + min (6 * n) (length (remaining ds))"
proof (induction n arbitrary: ds infos)
  case 0
  show ?case by simp
next
  case (Suc n)
  let ?ds2 = "advance 4 (advance 2 ds)"
  let ?infos2 = "infos @ [\<lparr>channelId = fst (get_quint16 ds),
                    correspondingChannelDataLength = fst (get_quint32 (advance 2 ds))\<rparr>]"
  have step: "read_channelInfos (Suc n) ds infos = read_channelInfos n ?ds2 ?infos2"
    by (simp add: get_quint16_def get_quint32_def read_be_def Let_def)
  note ih = Suc.IH [of ?ds2 ?infos2]
  have rem2: "remaining ?ds2 = drop 6 (remaining ds)" by simp
  have pos2: "position ?ds2 = position ds + min 6 (length (remaining ds))"
    using position_advance_advance [of 4 2 ds] by simp
  have len: "length (fst (read_channelInfos n ?ds2 ?infos2)) = length infos + Suc n"
    using ih by simp
  have rem: "remaining (snd (read_channelInfos n ?ds2 ?infos2)) = drop (6 * Suc n) (remaining ds)"
    using ih rem2 by (simp add: add.commute)
  have "position (snd (read_channelInfos n ?ds2 ?infos2))
        = position ds + (min 6 (length (remaining ds)) + min (6 * n) (length (remaining ds) - 6))"
    using ih pos2 rem2 by simp
  also have "\<dots> = position ds + min (6 * Suc n) (length (remaining ds))"
    using min_chain [of 6 "length (remaining ds)" "6 * n"] by simp
  finally have pos: "position (snd (read_channelInfos n ?ds2 ?infos2))
        = position ds + min (6 * Suc n) (length (remaining ds))" .
  show ?case
    unfolding step by (intro conjI) (rule len, rule rem, rule pos)
qed

lemma snd_get_quint16 [simp]: "snd (get_quint16 ds) = advance 2 ds"
  by (simp add: get_quint16_def read_be_def)

lemma snd_get_quint8 [simp]: "snd (get_quint8 ds) = advance 1 ds"
  by (simp add: get_quint8_def read_be_def)

lemma signature_read_PSDLayerRecord:
  "signature (fst (read_PSDLayerRecord ds d)) =
     fst (get_quint32 (snd (read_channelInfos
        (unat (fst (get_quint16 (advance 4 (advance 4 (advance 4 (advance 4 ds)))))))
        (advance 2 (advance 4 (advance 4 (advance 4 (advance 4 ds))))) (channelInfos d))))"
  by (simp add: read_PSDLayerRecord_def Let_def case_prod_beta)

lemma read_PSDLayerRecord_stop:
  assumes "signature (fst (read_PSDLayerRecord ds d)) \<noteq> PSDSignature8BIM"
  shows "read_PSDLayerRecord ds d =
     (d\<lparr>top' := fst (get_quint32 ds),
        left := fst (get_quint32 (advance 4 ds)),
        bottom := fst (get_quint32 (advance 4 (advance 4 ds))),
        right := fst (get_quint32 (advance 4 (advance 4 (advance 4 ds)))),
        channels := fst (get_quint16 (advance 4 (advance 4 (advance 4 (advance 4 ds))))),
        channelInfos := fst (read_channelInfos
          (unat (fst (get_quint16 (advance 4 (advance 4 (advance 4 (advance 4 ds)))))))
          (advance 2 (advance 4 (advance 4 (advance 4 (advance 4 ds))))) (channelInfos d)),
        signature := signature (fst (read_PSDLayerRecord ds d))\<rparr>,
      advance 4 (snd (read_channelInfos
          (unat (fst (get_quint16 (advance 4 (advance 4 (advance 4 (advance 4 ds)))))))
          (advance 2 (advance 4 (advance 4 (advance 4 (advance 4 ds))))) (channelInfos d))))"
  using assms unfolding signature_read_PSDLayerRecord
  by (simp add: read_PSDLayerRecord_def Let_def case_prod_beta)

text \<open>
  Claim C6, as amended. When the section signature read after the channel descriptors
  is not \<open>8BIM\<close>, the reader returns without reading blend mode, opacity, clipping,
  flags, filler and extra-data length: these fields keep the values the record held on
  entry (the reader does not zero them). It has appended one descriptor per channel, and
  the stream stands just past the signature: \<open>16 + 2 + 6 * channels + 4\<close> bytes were
  consumed (or all that were left, if fewer).
\<close>

theorem read_PSDLayerRecord_bad_signature:
  assumes "read_PSDLayerRecord ds d = (d', ds')" and "signature d' \<noteq> PSDSignature8BIM"
  shows "blendModeKey d' = blendModeKey d \<and> opacity d' = opacity d \<and>
         clipping d' = clipping d \<and> flags d' = flags d \<and> filler d' = filler d \<and>
         extraDataFieldLength d' = extraDataFieldLength d \<and>
         length (channelInfos d') = length (channelInfos d) + unat (channels d') \<and>
         remaining ds' = drop (22 + 6 * unat (channels d')) (remaining ds) \<and>
         position ds' = position ds + min (22 + 6 * unat (channels d')) (length (remaining ds))"
proof -
  let ?ds4 = "advance 4 (advance 4 (advance 4 (advance 4 ds)))"
  let ?ch = "fst (get_quint16 ?ds4)"
  let ?ci = "read_channelInfos (unat ?ch) (advance 2 ?ds4) (channelInfos d)"
  let ?L = "length (remaining ds)"
  from assms have bad: "signature (fst (read_PSDLayerRecord ds d)) \<noteq> PSDSignature8BIM"
    by simp
  from read_PSDLayerRecord_stop [OF bad] assms(1)
  have d': "d' = d\<lparr>top' := fst (get_quint32 ds),
        left := fst (get_quint32 (advance 4 ds)),
        bottom := fst (get_quint32 (advance 4 (advance 4 ds))),
        right := fst (get_quint32 (advance 4 (advance 4 (advance 4 ds)))),
        channels := ?ch, channelInfos := fst ?ci,
        signature := signature (fst (read_PSDLayerRecord ds d))\<rparr>"
    and ds': "ds' = advance 4 (snd ?ci)"
    by simp_all
  note ci = read_channelInfos_consumes [of "unat ?ch" "advance 2 ?ds4" "channelInfos d"]
  have ch: "channels d' = ?ch" by (simp add: d')
  have fields: "blendModeKey d' = blendModeKey d \<and> opacity d' = opacity d \<and>
         clipping d' = clipping d \<and> flags d' = flags d \<and> filler d' = filler d \<and>
         extraDataFieldLength d' = extraDataFieldLength d"
    by (simp add: d')
  have infos: "length (channelInfos d') = length (channelInfos d) + unat (channels d')"
    using ci by (simp add: d')
  have rem18: "remaining (advance 2 ?ds4) = drop 18 (remaining ds)"
    by simp
  have "position (advance 4 (advance 4 ds)) = position ds + min 8 ?L"
    using position_advance_advance [of 4 4 ds] by simp
  then have "position (advance 4 (advance 4 (advance 4 ds))) = position ds + min 12 ?L"
    using min_chain [of 8 ?L 4] by simp
  then have "position ?ds4 = position ds + min 16 ?L"
    using min_chain [of 12 ?L 4] by simp
  then have pos18: "position (advance 2 ?ds4) = position ds + min 18 ?L"
    using min_chain [of 16 ?L 2] by simp
  have remci: "remaining (snd ?ci) = drop (18 + 6 * unat ?ch) (remaining ds)"
    using ci rem18 by (simp add: add.commute)
  have "position (snd ?ci) = position ds + (min 18 ?L + min (6 * unat ?ch) (?L - 18))"
    using ci pos18 rem18 by simp
  then have posci: "position (snd ?ci) = position ds + min (18 + 6 * unat ?ch) ?L"
    using min_chain [of 18 ?L "6 * unat ?ch"] by simp
  have rem: "remaining ds' = drop (22 + 6 * unat (channels d')) (remaining ds)"
    unfolding ds' ch using remci by (simp add: add.commute)
  have "position ds' = position ds + (min (18 + 6 * unat ?ch) ?L + min 4 (?L - (18 + 6 * unat ?ch)))"
    unfolding ds' using posci remci by simp
  then have pos: "position ds' = position ds + min (22 + 6 * unat (channels d')) ?L"
    unfolding ch using min_chain [of "18 + 6 * unat ?ch" ?L 4] by simp
  from fields infos rem pos show ?thesis by simp
qed

lemma read_garbage_record:
  "read_PSDLayerRecord
     (block_stream [0, 0, 0, 0, 0, 0, 0, 0, 0, 0, 0, 1, 0, 0, 0, 1,
                    0, 1, 0, 0, 0, 0, 0, 3, 0x58, 0x58, 0x58, 0x58, 0x6E, 0x6F]) garbage_record
   = (garbage_record\<lparr>top' := 0, left := 0, bottom := 1, right := 1, channels := 1,
         channelInfos := [\<lparr>channelId = 0, correspondingChannelDataLength = 3\<rparr>],
         signature := 0x58585858\<rparr>,
      \<lparr>remaining = [0x6E, 0x6F], position = 28, status_ok = True, dev_error = False\<rparr>)"
  by (simp add: read_PSDLayerRecord_def block_stream_def stream_defs Let_def garbage_record_def)

theorem read_PSDLayerRecord_bad_signature_witness:
  "opacity (fst (read_PSDLayerRecord
     (block_stream [0, 0, 0, 0, 0, 0, 0, 0, 0, 0, 0, 1, 0, 0, 0, 1,
                    0, 1, 0, 0, 0, 0, 0, 3, 0x58, 0x58, 0x58, 0x58, 0x6E, 0x6F]) garbage_record))
     = opacity garbage_record \<and>
   position (snd (read_PSDLayerRecord
     (block_stream [0, 0, 0, 0, 0, 0, 0, 0, 0, 0, 0, 1, 0, 0, 0, 1,
                    0, 1, 0, 0, 0, 0, 0, 3, 0x58, 0x58, 0x58, 0x58, 0x6E, 0x6F]) garbage_record))
     = 28"
proof -
  note rd = read_garbage_record
  have bad: "signature (garbage_record\<lparr>top' := 0, left := 0, bottom := 1, right := 1,
         channels := 1,
         channelInfos := [\<lparr>channelId = 0, correspondingChannelDataLength = 3\<rparr>],
         signature := 0x58585858\<rparr>) \<noteq> PSDSignature8BIM"
    by simp
  from read_PSDLayerRecord_bad_signature [OF rd bad] show ?thesis
    by (simp add: rd)
qed

text \<open>
  Claim C6 as stated fails: read into a record that was not zero on entry, a layer record
  with a wrong signature leaves \<open>opacity\<close> and \<open>extraDataFieldLength\<close> non-zero.
\<close>

theorem read_PSDLayerRecord_fields_not_zeroed:
  "signature (fst (read_PSDLayerRecord
     (block_stream [0, 0, 0, 0, 0, 0, 0, 0, 0, 0, 0, 1, 0, 0, 0, 1,
                    0, 1, 0, 0, 0, 0, 0, 3, 0x58, 0x58, 0x58, 0x58, 0x6E, 0x6F]) garbage_record))
     \<noteq> PSDSignature8BIM \<and>
   opacity (fst (read_PSDLayerRecord
     (block_stream [0, 0, 0, 0, 0, 0, 0, 0, 0, 0, 0, 1, 0, 0, 0, 1,
                    0, 1, 0, 0, 0, 0, 0, 3, 0x58, 0x58, 0x58, 0x58, 0x6E, 0x6F]) garbage_record))
     = 0xCD \<and>
   extraDataFieldLength (fst (read_PSDLayerRecord
     (block_stream [0, 0, 0, 0, 0, 0, 0, 0, 0, 0, 0, 1, 0, 0, 0, 1,
                    0, 1, 0, 0, 0, 0, 0, 3, 0x58, 0x58, 0x58, 0x58, 0x6E, 0x6F]) garbage_record))
     = 0xCDCDCDCD"
  by (simp add: read_garbage_record) (simp add: garbage_record_def)

section \<open>Properties of the channel compositor\<close>

lemma mask_alpha: "(0x00FFFFFF :: quint32) = mask 24"
  by (simp add: mask_eq_exp_minus_1)
lemma mask_red: "(0xFF00FFFF :: quint32) = NOT (push_bit 16 (mask 8))"
  by (simp add: mask_eq_exp_minus_1 push_bit_eq_mult not_eq_complement)
lemma mask_green: "(0xFFFF00FF :: quint32) = NOT (push_bit 8 (mask 8))"
  by (simp add: mask_eq_exp_minus_1 push_bit_eq_mult not_eq_complement)
lemma mask_blue: "(0xFFFFFF00 :: quint32) = NOT (mask 8)"
  by (simp add: mask_eq_exp_minus_1 push_bit_eq_mult not_eq_complement)
lemma mask_byte: "(0xFF :: quint32) = mask 8"
  by (simp add: mask_eq_exp_minus_1)
lemma subPixel_ucast: "(scast (b :: byte) AND (0xFF :: quint32)) = ucast b"
  unfolding mask_byte
proof (rule bit_word_eqI)
  fix n
  assume "n < LENGTH(32)"
  show "bit (scast b AND (mask 8 :: quint32)) n = bit (ucast b :: quint32) n"
  proof (cases "n < 8")
    case True
    then have "min 7 n = n" by simp
    with True show ?thesis by (simp add: bit_simps)
  next
    case False
    then have "\<not> bit b n" by (auto dest: bit_imp_le_length)
    with False show ?thesis by (simp add: bit_simps)
  qed
qed

lemma bit_byte_high:
  "\<not> bit (b :: byte) (8 + n)" "\<not> bit (b :: byte) (16 + n)" "\<not> bit (b :: byte) (24 + n)"
  by (auto dest: bit_imp_le_length)

lemma lane_composite:
  "c \<in> {-1, 0, 1, 2} \<Longrightarrow> composite_switch channel p (ucast (b :: byte)) = Some p' \<Longrightarrow>
   lane c p' = (if c = channel then b else lane c p)"
  unfolding composite_switch_def lane_def qAlpha_def qRed_def qGreen_def qBlue_def mask_alpha mask_red mask_green mask_blue
  by (auto split: if_splits intro!: bit_word_eqI simp: bit_simps bit_byte_high)

lemma composite_switch_valid:
  "channel \<in> {-1, 0, 1, 2} \<Longrightarrow> \<exists>p'. composite_switch channel p s = Some p'"
  by (auto simp: composite_switch_def)

lemma composite_switch_unknown:
  "channel \<notin> {-1, 0, 1, 2} \<Longrightarrow> composite_switch channel p s = None"
  by (simp add: composite_switch_def)

lemma compound_loop_shape:
  assumes "channel \<in> {-1, 0, 1, 2}"
  shows "\<forall>(x, y) \<in> set cs. y * img_width img + x < length bytes \<Longrightarrow>
         fst (compound_loop cs img bytes channel) = Composited \<and>
         img_width (snd (compound_loop cs img bytes channel)) = img_width img \<and>
         img_height (snd (compound_loop cs img bytes channel)) = img_height img \<and>
         length (pixels (snd (compound_loop cs img bytes channel))) = length (pixels img)"
proof (induction cs arbitrary: img)
  case Nil
  show ?case by simp
next
  case (Cons xy cs)
  obtain x y where xy: "xy = (x, y)" by (cases xy)
  let ?o = "y * img_width img + x"
  from Cons.prems xy have inb: "?o < length bytes" by simp
  obtain p' where sw: "composite_switch channel (pixel img x y) (ucast (bytes ! ?o)) = Some p'"
    using composite_switch_valid [OF assms(1)] by blast
  let ?img1 = "setPixel img x y p'"
  have step: "compound_loop (xy # cs) img bytes channel = compound_loop cs ?img1 bytes channel"
    using inb sw by (simp add: xy subPixel_ucast Let_def)
  have w1: "img_width ?img1 = img_width img" and h1: "img_height ?img1 = img_height img"
    and l1: "length (pixels ?img1) = length (pixels img)"
    by (simp_all add: setPixel_def)
  from Cons.prems have "\<forall>(x, y) \<in> set cs. y * img_width ?img1 + x < length bytes"
    by (simp add: w1)
  from Cons.IH [OF this] show ?case
    unfolding step by (simp add: w1 h1 l1)
qed

lemma compound_loop_lanes:
  assumes "channel \<in> {-1, 0, 1, 2}" and "c \<in> {-1, 0, 1, 2}"
  shows "\<forall>(x, y) \<in> set cs. y * img_width img + x < length bytes \<Longrightarrow>
         off < length (pixels img) \<Longrightarrow>
         lane c (pixels (snd (compound_loop cs img bytes channel)) ! off) =
           (if c = channel \<and> off \<in> (\<lambda>(x, y). y * img_width img + x) ` set cs
            then bytes ! off else lane c (pixels img ! off))"
proof (induction cs arbitrary: img)
  case Nil
  show ?case by simp
next
  case (Cons xy cs)
  obtain x y where xy: "xy = (x, y)" by (cases xy)
  let ?o = "y * img_width img + x"
  from Cons.prems xy have inb: "?o < length bytes" by simp
  obtain p' where sw: "composite_switch channel (pixel img x y) (ucast (bytes ! ?o)) = Some p'"
    using composite_switch_valid [OF assms(1)] by blast
  let ?img1 = "setPixel img x y p'"
  have step: "compound_loop (xy # cs) img bytes channel = compound_loop cs ?img1 bytes channel"
    using inb sw by (simp add: xy subPixel_ucast Let_def)
  have w1: "img_width ?img1 = img_width img"
    and l1: "length (pixels ?img1) = length (pixels img)"
    and p1: "pixels ?img1 = (pixels img)[?o := p']"
    by (simp_all add: setPixel_def)
  have lanes1: "lane c (pixels ?img1 ! off) =
      (if c = channel \<and> off = ?o then bytes ! off else lane c (pixels img ! off))"
  proof (cases "off = ?o")
    case True
    with Cons.prems(2) have "pixels ?img1 ! off = p'" by (simp add: p1)
    moreover have "pixel img x y = pixels img ! off" using True by (simp add: pixel_def)
    ultimately show ?thesis
      using lane_composite [OF assms(2) sw] True by simp
  next
    case False
    then show ?thesis by (simp add: p1)
  qed
  from Cons.prems have all1: "\<forall>(x, y) \<in> set cs. y * img_width ?img1 + x < length bytes"
    by (simp add: w1)
  from Cons.prems(2) have off1: "off < length (pixels ?img1)"
    by (simp add: l1)
  have "lane c (pixels (snd (compound_loop cs ?img1 bytes channel)) ! off) =
      (if c = channel \<and> off \<in> (\<lambda>(x, y). y * img_width ?img1 + x) ` set cs
       then bytes ! off else lane c (pixels ?img1 ! off))"
    by (rule Cons.IH [OF all1 off1])
  with lanes1 show ?case
    unfolding step w1 by (auto simp: xy)
qed

lemma compound_loop_unknown:
  "channel \<notin> {-1, 0, 1, 2} \<Longrightarrow> snd (compound_loop cs img bytes channel) = img"
  by (cases cs) (auto simp: composite_switch_unknown Let_def)

lemma compound_loop_unknown_first:
  "channel \<notin> {-1, 0, 1, 2} \<Longrightarrow> y * img_width img + x < length bytes \<Longrightarrow>
   fst (compound_loop ((x, y) # cs) img bytes channel) = UnknownChannel"
  by (simp add: composite_switch_unknown Let_def)

lemma raster_order_first:
  "0 < w \<Longrightarrow> 0 < h \<Longrightarrow> \<exists>cs. raster_order w h = (0, 0) # cs"
  by (simp add: raster_order_def upt_conv_Cons)

lemma raster_order_empty:
  "w = 0 \<or> h = 0 \<Longrightarrow> raster_order w h = []"
  by (auto simp: raster_order_def)

lemma set_raster_order:
  "set (raster_order w h) = {(x, y). x < w \<and> y < h}"
  by (auto simp: raster_order_def)

lemma raster_offset_less:
  "x < w \<Longrightarrow> y < h \<Longrightarrow> y * w + x < w * (h :: nat)"
proof -
  assume x: "x < w" and y: "y < h"
  then have "y * w + x < Suc y * w" by simp
  also from y have "\<dots> \<le> h * w" by (intro mult_le_mono1) simp
  finally show ?thesis by (simp add: mult.commute)
qed

text \<open>
  Claim C9, as amended. On a raster of \<open>width * height\<close> pixels and a plane of at least
  that many bytes, a channel identifier of \<open>-1\<close>, 0, 1 or 2 makes the compositor run to
  the end and put the plane's byte for \<open>(x, y)\<close> into the alpha, red, green or blue lane
  of pixel \<open>(x, y)\<close>, the other three lanes of every pixel staying as they were. Any
  other identifier leaves the raster as it was, and is rejected with "unknown channels"
  at the first pixel when the raster has a pixel. The test of the identifier stands
  inside both loops: on a raster whose width or height is 0 the compositor returns
  normally, whatever the identifier. The 2 by 2 scenario of the spec is the witness.
\<close>

theorem compoundLayerChannel_lanes:
  assumes "length (pixels img) = img_width img * img_height img"
    and "img_width img * img_height img \<le> length bytes"
  shows "(channel \<in> {-1, 0, 1, 2} \<longrightarrow>
            fst (compoundLayerChannel img bytes channel) = Composited \<and>
            img_width (snd (compoundLayerChannel img bytes channel)) = img_width img \<and>
            img_height (snd (compoundLayerChannel img bytes channel)) = img_height img \<and>
            (\<forall>x<img_width img. \<forall>y<img_height img. \<forall>c\<in>{-1, 0, 1, 2}.
               lane c (pixel (snd (compoundLayerChannel img bytes channel)) x y) =
                 (if c = channel then bytes ! (y * img_width img + x)
                  else lane c (pixel img x y)))) \<and>
         (channel \<notin> {-1, 0, 1, 2} \<longrightarrow>
            snd (compoundLayerChannel img bytes channel) = img \<and>
            (0 < img_width img \<and> 0 < img_height img \<longrightarrow>
               fst (compoundLayerChannel img bytes channel) = UnknownChannel)) \<and>
         (img_width img = 0 \<or> img_height img = 0 \<longrightarrow>
            compoundLayerChannel img bytes channel = (Composited, img))"
proof (intro conjI impI)
  let ?w = "img_width img" and ?h = "img_height img"
  let ?r = "compound_loop (raster_order ?w ?h) img bytes channel"
  assume ch: "channel \<in> {-1, 0, 1, 2}"
  have inb: "\<forall>(x, y) \<in> set (raster_order ?w ?h). y * ?w + x < length bytes"
    using raster_offset_less assms(2) by (fastforce simp: set_raster_order)
  note v = compound_loop_shape [OF ch inb]
  from v show "fst (compoundLayerChannel img bytes channel) = Composited"
    and "img_width (snd (compoundLayerChannel img bytes channel)) = img_width img"
    and "img_height (snd (compoundLayerChannel img bytes channel)) = img_height img"
    by (simp_all add: compoundLayerChannel_def)
  show "\<forall>x<?w. \<forall>y<?h. \<forall>c\<in>{-1, 0, 1, 2}.
          lane c (pixel (snd (compoundLayerChannel img bytes channel)) x y) =
            (if c = channel then bytes ! (y * ?w + x) else lane c (pixel img x y))"
  proof (intro allI impI ballI)
    fix x y c
    assume x: "x < ?w" and y: "y < ?h" and c: "c \<in> {-1, 0, 1, 2 :: int}"
    have off: "y * ?w + x < length (pixels img)"
      using raster_offset_less [OF x y] assms(1) by simp
    have mem: "y * ?w + x \<in> (\<lambda>(x, y). y * ?w + x) ` set (raster_order ?w ?h)"
      using x y by (auto simp: set_raster_order intro!: image_eqI [where x = "(x, y)"])
    from compound_loop_lanes [OF ch c inb off] mem
    have "lane c (pixels (snd ?r) ! (y * ?w + x)) =
            (if c = channel then bytes ! (y * ?w + x) else lane c (pixels img ! (y * ?w + x)))"
      by simp
    moreover have "img_width (snd ?r) = ?w" using v by simp
    ultimately show "lane c (pixel (snd (compoundLayerChannel img bytes channel)) x y) =
            (if c = channel then bytes ! (y * ?w + x) else lane c (pixel img x y))"
      by (simp add: compoundLayerChannel_def pixel_def)
  qed
next
  assume "channel \<notin> {-1, 0, 1, 2}"
  then show "snd (compoundLayerChannel img bytes channel) = img"
    by (simp add: compoundLayerChannel_def compound_loop_unknown)
next
  assume ch: "channel \<notin> {-1, 0, 1, 2}" and pos: "0 < img_width img \<and> 0 < img_height img"
  then obtain cs where cs: "raster_order (img_width img) (img_height img) = (0, 0) # cs"
    using raster_order_first by blast
  from pos have "0 < img_width img * img_height img" by simp
  with assms(2) have "0 < length bytes" by linarith
  then have "0 * img_width img + 0 < length bytes" by simp
  from compound_loop_unknown_first [OF ch this]
  show "fst (compoundLayerChannel img bytes channel) = UnknownChannel"
    by (simp add: compoundLayerChannel_def cs)
next
  assume "img_width img = 0 \<or> img_height img = 0"
  then have "raster_order (img_width img) (img_height img) = []"
    by (rule raster_order_empty)
  then show "compoundLayerChannel img bytes channel = (Composited, img)"
    by (simp add: compoundLayerChannel_def)
qed

lemma composite_2x2_red:
  "compoundLayerChannel (default_raster 2 2) [10, 20, 30, 40] 0
     = (Composited, \<lparr>img_width = 2, img_height = 2,
                       pixels = [0x000A0000, 0x00140000, 0x001E0000, 0x00280000]\<rparr>)"
  by (simp add: compoundLayerChannel_def default_raster_def raster_order_def upt_rec
        numeral_2_eq_2 pixel_def setPixel_def composite_switch_def subPixel_ucast Let_def)

theorem compoundLayerChannel_lanes_witness:
  "lane 0 (pixel (snd (compoundLayerChannel (default_raster 2 2) [10, 20, 30, 40] 0)) 0 0) = 10 \<and>
   lane 0 (pixel (snd (compoundLayerChannel (default_raster 2 2) [10, 20, 30, 40] 0)) 1 0) = 20 \<and>
   lane 0 (pixel (snd (compoundLayerChannel (default_raster 2 2) [10, 20, 30, 40] 0)) 0 1) = 30 \<and>
   lane 0 (pixel (snd (compoundLayerChannel (default_raster 2 2) [10, 20, 30, 40] 0)) 1 1) = 40 \<and>
   lane (-1) (pixel (snd (compoundLayerChannel (default_raster 2 2) [10, 20, 30, 40] 0)) 0 0) = 0 \<and>
   lane (-1) (pixel (snd (compoundLayerChannel (default_raster 2 2) [10, 20, 30, 40] 0)) 1 0) = 0 \<and>
   lane (-1) (pixel (snd (compoundLayerChannel (default_raster 2 2) [10, 20, 30, 40] 0)) 0 1) = 0 \<and>
   lane (-1) (pixel (snd (compoundLayerChannel (default_raster 2 2) [10, 20, 30, 40] 0)) 1 1) = 0 \<and>
   pixels (snd (compoundLayerChannel (default_raster 2 2) [10, 20, 30, 40] 0))
     = [0x000A0000, 0x00140000, 0x001E0000, 0x00280000] \<and>
   compoundLayerChannel (default_raster 2 2) [10, 20, 30, 40] 3
     = (UnknownChannel, default_raster 2 2)"
proof -
  let ?img = "default_raster 2 2" and ?bytes = "[10, 20, 30, 40] :: byte list"
  have len: "length (pixels ?img) = img_width ?img * img_height ?img"
    and room: "img_width ?img * img_height ?img \<le> length ?bytes"
    by (simp_all add: default_raster_def)
  have w: "img_width ?img = 2" "img_height ?img = 2"
    by (simp_all add: default_raster_def)
  have zero: "lane (-1) (pixel ?img x y) = 0" if "x < 2" "y < 2" for x y
  proof -
    from that have "y * 2 + x < 2 * 2" by (intro raster_offset_less)
    then show ?thesis
      by (simp add: default_raster_def pixel_def lane_def qAlpha_def)
  qed
  from compoundLayerChannel_lanes [OF len room, of 0]
  have red: "lane c (pixel (snd (compoundLayerChannel ?img ?bytes 0)) x y) =
      (if c = 0 then ?bytes ! (y * 2 + x) else lane c (pixel ?img x y))"
    if "x < 2" "y < 2" "c \<in> {-1, 0, 1, 2}" for x y c
    using that unfolding w by blast
  from compoundLayerChannel_lanes [OF len room, of 3]
  have unk: "compoundLayerChannel ?img ?bytes 3 = (UnknownChannel, ?img)"
    unfolding w by (simp add: prod_eq_iff)
  have px: "pixels (snd (compoundLayerChannel ?img ?bytes 0))
     = [0x000A0000, 0x00140000, 0x001E0000, 0x00280000]"
    by (simp add: composite_2x2_red)
  show ?thesis
    using red [of 0 0 0] red [of 1 0 0] red [of 0 1 0] red [of 1 1 0]
      red [of 0 0 "-1"] red [of 1 0 "-1"] red [of 0 1 "-1"] red [of 1 1 "-1"]
      zero [of 0 0] zero [of 1 0] zero [of 0 1] zero [of 1 1] unk px
    by simp
qed

text \<open>
  Claim C9 as stated fails on a raster without pixels: the identifier 7 is not rejected,
  the compositor runs to its end, on a 0 by 0 raster and on a raster of width 0 and
  height 5 alike.
\<close>

theorem compoundLayerChannel_empty_raster_not_rejected:
  "compoundLayerChannel (default_raster 0 0) [] 7 = (Composited, default_raster 0 0) \<and>
   fst (compoundLayerChannel (default_raster 0 0) [] 7) \<noteq> UnknownChannel \<and>
   compoundLayerChannel (default_raster 0 5) [] 7 = (Composited, default_raster 0 5) \<and>
   fst (compoundLayerChannel (default_raster 0 5) [] 7) \<noteq> UnknownChannel"
  by (simp add: compoundLayerChannel_def default_raster_def raster_order_empty)

section \<open>Properties of the document walker\<close>

lemma ucast_down_of_int: "(ucast (word_of_int k :: 64 word) :: quint32) = word_of_int k"
  by (rule bit_word_eqI) (auto simp: bit_simps)

lemma ucast_64_sub:
  "(ucast ((ucast (a :: quint32) :: 64 word) - (4 + ucast (b :: quint32) + ucast (c :: quint32)))
      :: quint32) = a - (4 + b + c)"
proof -
  have "(ucast a :: 64 word) - (4 + ucast b + ucast c)
        = word_of_int (uint a - (4 + uint b + uint c))"
    by simp
  then have "(ucast ((ucast a :: 64 word) - (4 + ucast b + ucast c)) :: quint32)
        = ucast (word_of_int (uint a - (4 + uint b + uint c)) :: 64 word)"
    by (rule arg_cong)
  also have "\<dots> = word_of_int (uint a - (4 + uint b + uint c))"
    by (rule ucast_down_of_int)
  also have "\<dots> = a - (4 + b + c)"
    by simp
  finally show ?thesis .
qed

lemma ucast_64_sub2:
  "(ucast ((ucast (a :: quint32) :: 64 word) - (ucast (g :: quint32) + 4)) :: quint32) = a - (g + 4)"
proof -
  have "(ucast a :: 64 word) - (ucast g + 4) = word_of_int (uint a - (uint g + 4))"
    by simp
  then have "(ucast ((ucast a :: 64 word) - (ucast g + 4)) :: quint32)
        = ucast (word_of_int (uint a - (uint g + 4)) :: 64 word)"
    by (rule arg_cong)
  also have "\<dots> = word_of_int (uint a - (uint g + 4))"
    by (rule ucast_down_of_int)
  also have "\<dots> = a - (g + 4)"
    by simp
  finally show ?thesis .
qed

lemma foldl_add_sum_list:
  "foldl (\<lambda>acc x. acc + f x) (a :: quint32) xs = a + sum_list (map f xs)"
  by (induction xs arbitrary: a) (simp_all add: add.assoc)

lemma channelImageDataSize_eq:
  "channelImageDataSize records = channelImageDataBytes records"
proof -
  have "foldl (\<lambda>acc rec. foldl (\<lambda>acc info. acc + correspondingChannelDataLength info)
                           acc (channelInfos rec)) a records
        = a + sum_list (map correspondingChannelDataLength (concat (map channelInfos records)))"
    for a
    by (induction records arbitrary: a) (simp_all add: foldl_add_sum_list add.assoc)
  then show ?thesis
    by (simp add: channelImageDataSize_def channelImageDataBytes_def)
qed

lemma read_records_acc:
  "read_records n layer fresh ds consumed records = Some (ds', consumed', records') \<Longrightarrow>
   \<exists>new. records' = records @ new \<and> length new = n \<and>
     consumed' = consumed + sum_list (map (\<lambda>rec. PSDLayerRecordSize
                          + PSDChannelInfosize * word_of_nat (length (channelInfos rec))
                          + extraDataFieldLength rec) new)"
proof (induction n arbitrary: layer ds consumed records)
  case 0
  then show ?case by simp
next
  case (Suc n)
  obtain rec ds1 where rd: "read_PSDLayerRecord ds ((fresh layer)\<lparr>channelInfos := []\<rparr>) = (rec, ds1)"
    by (cases "read_PSDLayerRecord ds ((fresh layer)\<lparr>channelInfos := []\<rparr>)")
  let ?c = "consumed + (PSDLayerRecordSize
                          + PSDChannelInfosize * word_of_nat (length (channelInfos rec)))
             + extraDataFieldLength rec"
  from Suc.prems rd have rest:
    "read_records n (Suc layer) fresh (skipRawData (unat (extraDataFieldLength rec)) ds1)
        ?c (records @ [rec]) = Some (ds', consumed', records')"
    by (simp add: Let_def split: if_splits)
  from Suc.IH [OF rest] obtain new where
    new: "records' = (records @ [rec]) @ new" "length new = n"
      "consumed' = ?c + sum_list (map (\<lambda>rec. PSDLayerRecordSize
                          + PSDChannelInfosize * word_of_nat (length (channelInfos rec))
                          + extraDataFieldLength rec) new)"
    by blast
  show ?case
  proof (intro exI conjI)
    show "records' = records @ (rec # new)" using new(1) by simp
    show "length (rec # new) = Suc n" using new(2) by simp
    show "consumed' = consumed + sum_list (map (\<lambda>rec. PSDLayerRecordSize
                          + PSDChannelInfosize * word_of_nat (length (channelInfos rec))
                          + extraDataFieldLength rec) (rec # new))"
      using new(3) by (simp add: add.assoc)
  qed
qed

lemma load_layers_length:
  "load_layers recs i garbage ds images = (True, ds', images') \<Longrightarrow>
   length images' = length images + length recs"
proof (induction recs arbitrary: i ds images)
  case Nil
  then show ?case by simp
next
  case (Cons rec recs)
  obtain e ds1 img where ld: "loadPSDLayer ds rec (garbage i) = (e, ds1, img)"
    by (cases "loadPSDLayer ds rec (garbage i)")
  with Cons.prems have ok: "e = LoadOk"
    and rest: "load_layers recs (Suc i) garbage ds1 (images @ [img]) = (True, ds', images')"
    by (cases e; simp)+
  from Cons.IH [OF rest] show ?case by simp
qed

lemma parse_layers_state:
  assumes "parse_layers ds fresh garbage = Inr st"
  shows "ws_consumed st = consumedLayerInfoBytes (ws_records st) \<and>
         length (ws_images st) = length (ws_records st)"
proof -
  obtain fileHeader ds1 where h: "read_PSDFileHeaderSection ds = (fileHeader, ds1)"
    by (cases "read_PSDFileHeaderSection ds")
  obtain cml ds2 where cm: "read_skipped_section ds1 = (cml, ds2)"
    by (cases "read_skipped_section ds1")
  obtain irl ds3 where ir: "read_skipped_section ds2 = (irl, ds3)"
    by (cases "read_skipped_section ds2")
  obtain lam ds4 where lm: "get_quint32 ds3 = (lam, ds4)"
    by (cases "get_quint32 ds3")
  obtain lil lc ds5 where li: "read_PSDLayerInfo ds4 = ((lil, lc), ds5)"
    by (cases "read_PSDLayerInfo ds4") auto
  from assms h cm ir lm li obtain ds6 consumed records where
    rr: "read_records (nat \<bar>sint lc\<bar>) 0 fresh ds5 (0 + 2) [] = Some (ds6, consumed, records)"
    by (auto simp: parse_layers_def Let_def split: if_splits option.splits)
  from assms h cm ir lm li rr obtain ds7 images where
    ll: "load_layers records 0 garbage ds6 [] = (True, ds7, images)"
    and st: "st = \<lparr>ws_stream = ds7, ws_lam_length = lam, ws_li_length = lil,
                   ws_consumed = consumed, ws_records = records, ws_images = images\<rparr>"
    by (auto simp: parse_layers_def Let_def split: if_splits prod.splits bool.splits)
  from read_records_acc [OF rr] have "consumed = consumedLayerInfoBytes records"
    by (auto simp: consumedLayerInfoBytes_def)
  moreover from load_layers_length [OF ll] have "length images = length records"
    by simp
  ultimately show ?thesis by (simp add: st)
qed

lemmas walk_defs = parse_layers_def read_PSDFileHeaderSection_def read_skipped_section_def
  read_PSDLayerInfo_def read_PSDLayerRecord_def read_PSDGlobalLayerMaskInfo_def
  read_PSDAdditionalLayerInfo_def loadPSDLayer_def new_QImage_def finish_walk_def
  main_walk_def early_exit_def channelImageDataSize_def block_stream_def

lemma get_quint32_cons:
  "get_quint32 \<lparr>remaining = a # b # c # d # rest, position = p, status_ok = s, dev_error = e\<rparr>
   = (word_of_nat (be_nat [a, b, c, d]),
      \<lparr>remaining = rest, position = p + 4, status_ok = s, dev_error = e\<rparr>)"
  by (simp add: get_quint32_def read_be_def advance_def)

lemma get_quint16_cons:
  "get_quint16 \<lparr>remaining = a # b # rest, position = p, status_ok = s, dev_error = e\<rparr>
   = (word_of_nat (be_nat [a, b]),
      \<lparr>remaining = rest, position = p + 2, status_ok = s, dev_error = e\<rparr>)"
  by (simp add: get_quint16_def read_be_def advance_def)

lemma get_quint8_cons:
  "get_quint8 \<lparr>remaining = a # rest, position = p, status_ok = s, dev_error = e\<rparr>
   = (word_of_nat (be_nat [a]),
      \<lparr>remaining = rest, position = p + 1, status_ok = s, dev_error = e\<rparr>)"
  by (simp add: get_quint8_def read_be_def advance_def)

lemmas eval_defs = get_quint32_cons get_quint16_cons get_quint8_cons be_nat_def
  skipRawData_def readRawData_def advance_def atEnd_def Let_def

lemma parse_one_layer_document:
  "parse_layers (block_stream one_layer_document) (\<lambda>layer. garbage_record) (\<lambda>i k. 0)
   = Inr \<lparr>ws_stream = \<lparr>remaining = [0, 0, 0, 0, 0], position = 87, status_ok = True,
                         dev_error = False\<rparr>,
          ws_lam_length = 53, ws_li_length = 46, ws_consumed = 42,
          ws_records = [\<lparr>top' = 0, left = 0, bottom = 1, right = 1, channels = 1,
             channelInfos = [\<lparr>channelId = 0, correspondingChannelDataLength = 3\<rparr>],
             signature = PSDSignature8BIM, blendModeKey = 0x6E6F726D, opacity = 0xFF,
             clipping = 0, flags = 0, filler = 0, extraDataFieldLength = 0\<rparr>],
          ws_images = [\<lparr>img_width = 1, img_height = 1, pixels = [0x007F0000]\<rparr>]\<rparr>"
  by (simp add: one_layer_document_def walk_defs eval_defs garbage_record_def
        compoundLayerChannel_def raster_order_def pixel_def setPixel_def composite_switch_def
        subPixel_ucast)

lemma walk_one_layer_document:
  "main_walk (block_stream one_layer_document) (\<lambda>layer. garbage_record) (\<lambda>i k. 0)
   = \<lparr>exit_code = 0,
      records_parsed = [\<lparr>top' = 0, left = 0, bottom = 1, right = 1, channels = 1,
             channelInfos = [\<lparr>channelId = 0, correspondingChannelDataLength = 3\<rparr>],
             signature = PSDSignature8BIM, blendModeKey = 0x6E6F726D, opacity = 0xFF,
             clipping = 0, flags = 0, filler = 0, extraDataFieldLength = 0\<rparr>],
      saved = [\<lparr>img_width = 1, img_height = 1, pixels = [0x007F0000]\<rparr>],
      mismatch_reported = True, lam_length = 53, glmi_length = 0, scan_budget = Some 0\<rparr>"
  by (simp add: main_walk_def parse_one_layer_document finish_walk_def channelImageDataSize_def
        read_PSDGlobalLayerMaskInfo_def eval_defs scanAdditionalLayerInfo.simps)

lemma walk_underrun_document:
  "main_walk (block_stream underrun_document) (\<lambda>layer. garbage_record) (\<lambda>i k. 0)
   = \<lparr>exit_code = 0, records_parsed = [], saved = [],
      mismatch_reported = False, lam_length = 0, glmi_length = 0,
      scan_budget = Some 4294967286\<rparr>"
  by (simp add: underrun_document_def walk_defs eval_defs scanAdditionalLayerInfo.simps)

lemma finish_walk_kept:
  "records_parsed (finish_walk st) = ws_records st \<and> saved (finish_walk st) = ws_images st \<and>
   lam_length (finish_walk st) = ws_lam_length st \<and>
   mismatch_reported (finish_walk st)
     = (ws_li_length st \<noteq> ws_consumed st + channelImageDataSize (ws_records st))"
  by (simp add: finish_walk_def Let_def split: prod.splits)


lemma finish_walk_budget:
  "(exit_code (finish_walk st) = 0 \<longrightarrow> scan_budget (finish_walk st) \<noteq> None) \<and>
   (scan_budget (finish_walk st) \<noteq> None \<longrightarrow>
      scan_budget (finish_walk st)
        = Some (uint (ws_lam_length st
                       - (4 + ws_consumed st + channelImageDataSize (ws_records st))
                       - (glmi_length (finish_walk st) + 4))))"
  by (simp add: finish_walk_def Let_def ucast_64_sub ucast_64_sub2 split: prod.splits)


lemma parse_layers_early:
  "parse_layers ds fresh garbage = Inl r \<Longrightarrow> exit_code r = -1 \<and> scan_budget r = None"
  by (auto simp: parse_layers_def Let_def early_exit_def
        split: if_splits option.splits prod.splits bool.splits)

lemma uint_budget:
  "uint ((L :: quint32) - (4 + c + ch) - (g + 4))
     = (uint L - (4 + uint c + uint ch + uint g + 4)) mod 2 ^ 32"
proof -
  have "L - (4 + c + ch) - (g + 4) = word_of_int (uint L - (4 + uint c + uint ch + uint g + 4))"
    by simp
  then have "uint (L - (4 + c + ch) - (g + 4))
      = uint (word_of_int (uint L - (4 + uint c + uint ch + uint g + 4)) :: quint32)"
    by (rule arg_cong)
  also have "\<dots> = (uint L - (4 + uint c + uint ch + uint g + 4)) mod 2 ^ 32"
    by (simp only: uint_word_of_int) simp
  finally show ?thesis .
qed

text \<open>
  Claim C8, as amended. Every walk that returns 0 has reached the scanner, and whenever
  the scanner is reached the budget it receives is
  \<open>LayerAndMaskInfo.length - (4 + consumedLayerInfoBytes + channelImageDataSize +
  GlobalLayerMaskInfo.length + 4)\<close> reduced modulo \<open>2^32\<close>: the difference is formed
  in unsigned arithmetic and stored in a \<open>quint32\<close>. It is the plain difference exactly
  when the sum does not exceed \<open>LayerAndMaskInfo.length\<close>. The padding byte skipped after
  odd-sized channel data is not part of the sum.
\<close>

theorem scan_budget_formula:
  "(exit_code (main_walk ds fresh garbage) = 0 \<longrightarrow>
      scan_budget (main_walk ds fresh garbage) \<noteq> None) \<and>
   (scan_budget (main_walk ds fresh garbage) \<noteq> None \<longrightarrow>
      scan_budget (main_walk ds fresh garbage)
        = Some ((uint (lam_length (main_walk ds fresh garbage))
                  - (4 + uint (consumedLayerInfoBytes (records_parsed (main_walk ds fresh garbage)))
                       + uint (channelImageDataBytes (records_parsed (main_walk ds fresh garbage)))
                       + uint (glmi_length (main_walk ds fresh garbage)) + 4)) mod 2 ^ 32) \<and>
      (4 + uint (consumedLayerInfoBytes (records_parsed (main_walk ds fresh garbage)))
         + uint (channelImageDataBytes (records_parsed (main_walk ds fresh garbage)))
         + uint (glmi_length (main_walk ds fresh garbage)) + 4
         \<le> uint (lam_length (main_walk ds fresh garbage)) \<longrightarrow>
       scan_budget (main_walk ds fresh garbage)
         = Some (uint (lam_length (main_walk ds fresh garbage))
                  - (4 + uint (consumedLayerInfoBytes (records_parsed (main_walk ds fresh garbage)))
                       + uint (channelImageDataBytes (records_parsed (main_walk ds fresh garbage)))
                       + uint (glmi_length (main_walk ds fresh garbage)) + 4))))"
proof (cases "parse_layers ds fresh garbage")
  case (Inl r)
  then have "main_walk ds fresh garbage = r" by (simp add: main_walk_def)
  with parse_layers_early [OF Inl] show ?thesis by simp
next
  case (Inr st)
  let ?r = "finish_walk st"
  let ?K = "uint (lam_length ?r)
              - (4 + uint (consumedLayerInfoBytes (records_parsed ?r))
                   + uint (channelImageDataBytes (records_parsed ?r))
                   + uint (glmi_length ?r) + 4)"
  have walk: "main_walk ds fresh garbage = ?r" by (simp add: main_walk_def Inr)
  note ps = parse_layers_state [OF Inr]
  note kept = finish_walk_kept [of st]
  have c: "ws_consumed st = consumedLayerInfoBytes (records_parsed ?r)"
    and ch: "channelImageDataSize (ws_records st) = channelImageDataBytes (records_parsed ?r)"
    and l: "ws_lam_length st = lam_length ?r"
    using ps kept by (simp_all add: channelImageDataSize_eq)
  note fb = finish_walk_budget [of st, unfolded c ch l]
  have mod: "scan_budget ?r = Some (?K mod 2 ^ 32)" if "scan_budget ?r \<noteq> None"
    using fb that by (simp only: uint_budget) simp
  have exact: "scan_budget ?r = Some ?K" if "scan_budget ?r \<noteq> None"
    and "4 + uint (consumedLayerInfoBytes (records_parsed ?r))
           + uint (channelImageDataBytes (records_parsed ?r))
           + uint (glmi_length ?r) + 4 \<le> uint (lam_length ?r)"
  proof -
    have lo: "0 \<le> ?K" using that(2) by simp
    have "uint (lam_length ?r) < 2 ^ 32"
      using uint_lt2p [of "lam_length ?r"] by simp
    then have hi: "?K < 2 ^ 32"
      using uint_ge_0 [of "consumedLayerInfoBytes (records_parsed ?r)"]
        uint_ge_0 [of "channelImageDataBytes (records_parsed ?r)"]
        uint_ge_0 [of "glmi_length ?r"]
      by linarith
    from lo hi have "?K mod 2 ^ 32 = ?K" by simp
    with mod [OF that(1)] show ?thesis by simp
  qed
  from fb mod exact show ?thesis
    unfolding walk by blast
qed


theorem scan_budget_formula_witness:
  "exit_code (main_walk (block_stream one_layer_document) (\<lambda>layer. garbage_record) (\<lambda>i k. 0))
     = 0 \<and>
   scan_budget (main_walk (block_stream one_layer_document) (\<lambda>layer. garbage_record) (\<lambda>i k. 0))
     = Some 0"
proof -
  let ?W = "main_walk (block_stream one_layer_document) (\<lambda>layer. garbage_record) (\<lambda>i k. 0)"
  have ex: "exit_code ?W = 0" by (simp add: walk_one_layer_document)
  have fields: "lam_length ?W = 53" "glmi_length ?W = 0"
    "consumedLayerInfoBytes (records_parsed ?W) = 42"
    "channelImageDataBytes (records_parsed ?W) = 3"
    by (simp_all add: walk_one_layer_document consumedLayerInfoBytes_def
          channelImageDataBytes_def)
  from scan_budget_formula [of "block_stream one_layer_document" "\<lambda>layer. garbage_record"
      "\<lambda>i k. 0"] ex
  have "scan_budget ?W
        = Some ((uint (lam_length ?W)
                  - (4 + uint (consumedLayerInfoBytes (records_parsed ?W))
                       + uint (channelImageDataBytes (records_parsed ?W))
                       + uint (glmi_length ?W) + 4)) mod 2 ^ 32)"
    by blast
  then have "scan_budget ?W = Some 0"
    by (simp add: fields)
  with ex show ?thesis by simp
qed

text \<open>
  Claim C8 as stated fails: \<open>underrun_document\<close> is parsed with return value 0, its
  lengths give \<open>0 - (4 + 2 + 0 + 0 + 4) = -10\<close>, and the budget handed to the scanner is
  \<open>4294967286\<close>.
\<close>

theorem scan_budget_wraps:
  "exit_code (main_walk (block_stream underrun_document) (\<lambda>layer. garbage_record) (\<lambda>i k. 0))
     = 0 \<and>
   scan_budget (main_walk (block_stream underrun_document) (\<lambda>layer. garbage_record) (\<lambda>i k. 0))
     = Some 4294967286 \<and>
   uint (lam_length
          (main_walk (block_stream underrun_document) (\<lambda>layer. garbage_record) (\<lambda>i k. 0)))
     - (4 + uint (consumedLayerInfoBytes (records_parsed
              (main_walk (block_stream underrun_document) (\<lambda>layer. garbage_record) (\<lambda>i k. 0))))
          + uint (channelImageDataBytes (records_parsed
              (main_walk (block_stream underrun_document) (\<lambda>layer. garbage_record) (\<lambda>i k. 0))))
          + uint (glmi_length
              (main_walk (block_stream underrun_document) (\<lambda>layer. garbage_record) (\<lambda>i k. 0)))
          + 4)
     = -10"
  by (simp add: walk_underrun_document consumedLayerInfoBytes_def channelImageDataBytes_def)

lemma uncompressRLE_truncated: "uncompressRLE 3 1 [0, 2, 0xFE] = [0, 0, 0]"
  by code_simp

text \<open>
  Claim C5 does not hold of the code for a stream that ends inside a run. The table
  loop tests \<open>in.atEnd()\<close> and fails on an empty stream, but the run loop reads on past
  the end, where every read yields 0: the stream \<open>00 02 FE\<close> announces a repeat run of
  three bytes and ends before the byte to repeat, and decodes to three zeros, a plane
  of the right size that \<open>loadPSDLayer\<close> accepts.
\<close>

theorem truncated_rle_accepted:
  "uncompressRLE 3 1 [0, 2, 0xFE] = [0, 0, 0] \<and>
   uncompressRLE 3 1 [] = [] \<and>
   fst (loadPSDLayer (block_stream [0, 1, 0, 2, 0xFE])
          (garbage_record\<lparr>top' := 0, left := 0, bottom := 1, right := 3,
             channelInfos := [\<lparr>channelId = 0, correspondingChannelDataLength = 5\<rparr>]\<rparr>)
          (\<lambda>k. 0)) = LoadOk"
proof -
  have "raster_order 3 1 = [(0, 0), (1, 0), (2, 0)]" by code_simp
  then have order: "raster_order 3 (Suc 0) = [(0, 0), (1, 0), (2, 0)]" by simp
  have upt3: "[0..<3] = [0, 1, 2]" by code_simp
  have rle: "uncompressRLE 3 (Suc 0) [0, 2, 0xFE] = [0, 0, 0]"
    using uncompressRLE_truncated by simp
  have "uncompressRLE 3 1 [] = []" by code_simp
  moreover have "fst (loadPSDLayer (block_stream [0, 1, 0, 2, 0xFE])
          (garbage_record\<lparr>top' := 0, left := 0, bottom := 1, right := 3,
             channelInfos := [\<lparr>channelId = 0, correspondingChannelDataLength = 5\<rparr>]\<rparr>)
          (\<lambda>k. 0)) = LoadOk"
    by (simp add: loadPSDLayer_def new_QImage_def block_stream_def eval_defs
          rle garbage_record_def compoundLayerChannel_def order upt3
          pixel_def setPixel_def composite_switch_def subPixel_ucast)
  ultimately show ?thesis using uncompressRLE_truncated by blast
qed

end
